theory Spec2Isabelle
  imports Main "HOL-Library.Word"
begin

unbundle bit_operations_syntax

section \<open>Memory model\<close>

text \<open>
  The embedding follows \<^verbatim>\<open>src/Memory Pool Allocator/main.cpp\<close> on a 64-bit target:
  \<^verbatim>\<open>size_t\<close> and \<^verbatim>\<open>uintptr_t\<close> are 64-bit unsigned words whose arithmetic wraps, a
  pointer is its address, and \<^verbatim>\<open>nullptr\<close> is address 0. Memory is a flat array of
  bytes. The only memory the pool reads or writes is the \<^verbatim>\<open>next\<close> field of a
  \<^verbatim>\<open>Block\<close>, the eight bytes at the block's address (stored little-endian).
  Blocks closer than eight bytes to each other therefore share bytes, as they do
  in the program. The contents of memory the pool has not written are arbitrary:
  every operation takes the heap it starts from as an argument.

  Every store succeeds in this heap. In the program a store outside the reserved
  bytes is undefined behaviour, so a statement that a construction or a growth
  returns is made only where the links written lie inside the reservation
  (\<open>region_fits\<close> with blocks of at least eight bytes, or \<open>links_inside\<close>).

  The definitions \<open>allocateBlock\<close> and \<open>deallocateBlock\<close> give what the two methods do
  to the fields and to memory between \<^verbatim>\<open>lockPool()\<close> and \<^verbatim>\<open>unlockPool()\<close>. The spin lock
  itself is modelled after them (\<open>lockPool\<close>, \<open>allocateBlock_with_lock\<close>,
  \<open>deallocateBlock_with_lock\<close>): a call that finds the flag set never returns, and
  an exception out of \<^verbatim>\<open>allocateBlock\<close> leaves the flag set. The message \<^verbatim>\<open>resizePool\<close>
  prints is not part of the state and is not modelled.
\<close>

type_synonym size_t = "64 word"
type_synonym addr = "64 word"
type_synonym heap = "addr \<Rightarrow> 8 word"

text \<open>\<^verbatim>\<open>block->next = v\<close>: the eight bytes at \<open>block\<close> receive the bytes of \<open>v\<close>.\<close>

definition store_next :: "heap \<Rightarrow> addr \<Rightarrow> addr \<Rightarrow> heap" where
  "store_next h block v =
     (\<lambda>x. if x - block < 8 then ucast (drop_bit (8 * unat (x - block)) v) else h x)"

text \<open>\<^verbatim>\<open>block->next\<close> read: the eight bytes at \<open>block\<close>, lowest byte first.\<close>

definition load_next :: "heap \<Rightarrow> addr \<Rightarrow> addr" where
  "load_next h block =
     foldr (\<lambda>i acc. ucast (h (block + of_nat i)) OR push_bit 8 acc) [0..<8] 0"

text \<open>
  The exceptions the program throws: \<^verbatim>\<open>std::invalid_argument\<close> (from
  \<^verbatim>\<open>alignPointer\<close>), \<^verbatim>\<open>std::bad_alloc\<close> (from \<^verbatim>\<open>operator new\<close>) and
  \<^verbatim>\<open>std::runtime_error\<close> (from \<^verbatim>\<open>resizePool\<close>). No function of the pool catches any
  of them, so a callee's exception is the caller's.
\<close>

datatype error = InvalidArgument | BadAlloc | RuntimeError

section \<open>The alignment utility\<close>

definition alignPointer :: "addr \<Rightarrow> size_t \<Rightarrow> error + addr" where
  "alignPointer ptr alignment =
     (if alignment = 0 \<or> (alignment AND (alignment - 1)) \<noteq> 0 then Inl InvalidArgument
      else
        let p = ptr;
            misalignment = p mod alignment;
            adjustment = (alignment - misalignment) mod alignment;
            aligned = p + adjustment
        in Inr aligned)"

text \<open>A non-zero power of two that a \<^verbatim>\<open>size_t\<close> can hold.\<close>

definition is_pow2 :: "size_t \<Rightarrow> bool" where
  "is_pow2 a = (a \<in> set (map (\<lambda>k. 2 ^ k) [0..<64]))"

section \<open>The pool\<close>

record MemoryPool =
  freeList :: addr
  poolStart :: addr
  blockSize :: size_t
  totalBlocks :: size_t
  usedBlocks :: size_t
  alignment :: size_t

text \<open>
  The linking loop of \<^verbatim>\<open>initializeMemoryPool\<close> (lines 111-114) and of \<^verbatim>\<open>resizePool\<close>
  (lines 130-133), the same text in both:
  \<^verbatim>\<open>for (size_t i = 1; i < n; i++) {
      currentBlock->next = (Block*)((char*)currentBlock + blockSize);
      currentBlock = currentBlock->next; }\<close>
  It returns the heap and the last \<^verbatim>\<open>currentBlock\<close>.
\<close>

function link_loop :: "size_t \<Rightarrow> size_t \<Rightarrow> size_t \<Rightarrow> heap \<Rightarrow> addr \<Rightarrow> heap \<times> addr" where
  "link_loop i n bsz h currentBlock =
     (if i < n then
        link_loop (i + 1) n bsz
          (store_next h currentBlock (currentBlock + bsz))
          (load_next (store_next h currentBlock (currentBlock + bsz)) currentBlock)
      else (h, currentBlock))"
  by pat_completeness auto
termination
proof (relation "measure (\<lambda>(i, n, bsz, h, c). unat n - unat i)")
  show "wf (measure (\<lambda>(i, n, bsz, h, c). unat n - unat i))" by simp
next
  fix i n bsz :: size_t and h :: heap and currentBlock :: addr
  assume "i < n"
  then have "unat i < unat n" by (simp add: word_less_nat_alt)
  moreover from \<open>i < n\<close> have "unat (i + 1) = Suc (unat i)"
    using unsigned_less [of n, where ?'a = nat] by (simp add: unat_plus_if_size word_size word_less_nat_alt)
  ultimately show "((i + 1, n, bsz, store_next h currentBlock (currentBlock + bsz),
            load_next (store_next h currentBlock (currentBlock + bsz)) currentBlock),
          (i, n, bsz, h, currentBlock))
         \<in> measure (\<lambda>(i, n, bsz, h, c). unat n - unat i)"
    by simp
qed

declare link_loop.simps [simp del]

text \<open>
  \<^verbatim>\<open>operator new\<close> belongs to the environment: the argument \<open>operator_new\<close> gives, for
  the requested size, the address it returns, or \<open>None\<close> when it throws
  \<^verbatim>\<open>std::bad_alloc\<close>.

  \<^verbatim>\<open>initializeMemoryPool\<close>, lines 98-116. Its parameters shadow the fields
  \<^verbatim>\<open>blockSize\<close> and \<^verbatim>\<open>totalBlocks\<close>; \<^verbatim>\<open>alignment\<close> is the field.
\<close>

definition initializeMemoryPool ::
  "(size_t \<Rightarrow> addr option) \<Rightarrow> heap \<Rightarrow> MemoryPool \<Rightarrow> size_t \<Rightarrow> size_t
     \<Rightarrow> error + (heap \<times> MemoryPool)" where
  "initializeMemoryPool operator_new h this bsz nblocks =
     (let this1 = this\<lparr>blockSize := bsz, totalBlocks := nblocks, alignment := alignment this\<rparr>
      in case operator_new (bsz * nblocks + alignment this1 - 1) of
           None \<Rightarrow> Inl BadAlloc
         | Some rawPool \<Rightarrow>
             (case alignPointer rawPool (alignment this1) of
                Inl e \<Rightarrow> Inl e
              | Inr start \<Rightarrow>
                  let this2 = this1\<lparr>poolStart := start\<rparr>;
                      this3 = this2\<lparr>freeList := poolStart this2\<rparr>;
                      looped = link_loop 1 nblocks bsz h (freeList this3)
                  in Inr (store_next (fst looped) (snd looped) 0, this3)))"

text \<open>
  The constructor, lines 57-60. It is handed the storage of the object, \<open>this\<close>,
  whose fields hold whatever the storage held: a field the constructor does not
  assign keeps that value.
\<close>

definition MemoryPool_ctor ::
  "MemoryPool \<Rightarrow> (size_t \<Rightarrow> addr option) \<Rightarrow> heap \<Rightarrow> size_t \<Rightarrow> size_t \<Rightarrow> size_t
     \<Rightarrow> error + (heap \<times> MemoryPool)" where
  "MemoryPool_ctor this operator_new h blocksize nblocks align =
     initializeMemoryPool operator_new h (this\<lparr>alignment := align\<rparr>) blocksize nblocks"

text \<open>\<^verbatim>\<open>resizePool\<close>, lines 118-142.\<close>

definition resizePool ::
  "(size_t \<Rightarrow> addr option) \<Rightarrow> heap \<Rightarrow> MemoryPool \<Rightarrow> error + (heap \<times> MemoryPool)" where
  "resizePool operator_new h this =
     (let newSize = totalBlocks this + totalBlocks this div 2
      in case operator_new (blockSize this * newSize + alignment this - 1) of
           None \<Rightarrow> Inl BadAlloc
         | Some newRawPool \<Rightarrow>
             if newRawPool = 0 then Inl RuntimeError
             else
               (case alignPointer newRawPool (alignment this) of
                  Inl e \<Rightarrow> Inl e
                | Inr newPoolStart \<Rightarrow>
                    let newFreeList = newPoolStart;
                        looped = link_loop 1 newSize (blockSize this) h newFreeList;
                        h1 = store_next (fst looped) (snd looped) 0;
                        h2 = store_next h1 (snd looped) (freeList this)
                    in Inr (h2, this\<lparr>freeList := newFreeList, totalBlocks := newSize\<rparr>)))"

text \<open>
  \<^verbatim>\<open>allocateBlock\<close>, lines 69-80 and 83: the method without its calls to the spin
  lock (for those see \<open>allocateBlock_with_lock\<close>). The result is the returned pointer
  (0 for \<^verbatim>\<open>nullptr\<close>) with the new heap and pool.
\<close>

definition allocateBlock ::
  "(size_t \<Rightarrow> addr option) \<Rightarrow> heap \<Rightarrow> MemoryPool \<Rightarrow> error + (addr \<times> heap \<times> MemoryPool)" where
  "allocateBlock operator_new h this =
     (case (if freeList this = 0 then resizePool operator_new h this else Inr (h, this)) of
        Inl e \<Rightarrow> Inl e
      | Inr (h1, this1) \<Rightarrow>
          if freeList this1 = 0 then Inr (0, h1, this1)
          else Inr (freeList this1, h1,
                    this1\<lparr>freeList := load_next h1 (freeList this1),
                           usedBlocks := usedBlocks this1 + 1\<rparr>))"

text \<open>
  \<^verbatim>\<open>deallocateBlock\<close>, lines 88-89: the method without its calls to the spin lock (for
  those see \<open>deallocateBlock_with_lock\<close>).
\<close>

definition deallocateBlock :: "heap \<Rightarrow> MemoryPool \<Rightarrow> addr \<Rightarrow> heap \<times> MemoryPool" where
  "deallocateBlock h this block = (store_next h block (freeList this), this\<lparr>freeList := block\<rparr>)"

text \<open>\<^verbatim>\<open>reset\<close>, lines 93-96. It touches no memory.\<close>

definition reset :: "MemoryPool \<Rightarrow> MemoryPool" where
  "reset this = this\<lparr>freeList := poolStart this, usedBlocks := 0\<rparr>"

text \<open>
  \<^verbatim>\<open>destroyMemoryPool\<close>, lines 144-148: the pointers handed to \<^verbatim>\<open>operator delete\<close>, and
  the pool afterwards.
\<close>

definition destroyMemoryPool :: "MemoryPool \<Rightarrow> addr list \<times> MemoryPool" where
  "destroyMemoryPool this = ([poolStart this], this\<lparr>poolStart := 0, freeList := 0\<rparr>)"

section \<open>The spin lock\<close>

text \<open>
  \<^verbatim>\<open>Spinlock::lockPool\<close>, lines 22-26, run by one thread with no other thread to clear
  the flag: \<^verbatim>\<open>test_and_set\<close> sets the flag and yields what it was; while that was
  set, the loop goes round again. The argument is the flag, the result the flag
  when the call returns, and \<open>None\<close> when it never returns.
\<close>

partial_function (option) lockPool :: "bool \<Rightarrow> bool option" where
  "lockPool flag = (if flag then lockPool True else Some True)"

text \<open>\<^verbatim>\<open>Spinlock::unlockPool\<close>, lines 28-30: the flag is cleared.\<close>

definition unlockPool :: "bool \<Rightarrow> bool" where
  "unlockPool flag = False"

text \<open>
  The pool object with its lock: the flag of the member \<^verbatim>\<open>spinlock\<close> (clear after
  \<^verbatim>\<open>ATOMIC_FLAG_INIT\<close>) beside the data members.
\<close>

record LockedPool =
  spinlock :: bool
  members :: MemoryPool

text \<open>
  \<^verbatim>\<open>allocateBlock\<close> as a whole, lines 66-84. The lock is taken first (line 67). Both
  returns release it (lines 74 and 81). An exception out of \<^verbatim>\<open>resizePool\<close> (line 70)
  leaves the method with the lock still held; \<^verbatim>\<open>resizePool\<close> throws before it writes
  a field or a link (lines 121-125), so the heap and the data members are then as
  they were. The result is \<open>None\<close> when the call never returns.
\<close>

definition allocateBlock_with_lock ::
  "(size_t \<Rightarrow> addr option) \<Rightarrow> heap \<Rightarrow> LockedPool
     \<Rightarrow> ((error \<times> heap \<times> LockedPool) + (addr \<times> heap \<times> LockedPool)) option" where
  "allocateBlock_with_lock operator_new h obj =
     (case lockPool (spinlock obj) of
        None \<Rightarrow> None
      | Some held \<Rightarrow>
          (case allocateBlock operator_new h (members obj) of
             Inl e \<Rightarrow> Some (Inl (e, h, obj\<lparr>spinlock := held\<rparr>))
           | Inr (b, h', p') \<Rightarrow>
               Some (Inr (b, h', \<lparr>spinlock = unlockPool held, members = p'\<rparr>))))"

text \<open>\<^verbatim>\<open>deallocateBlock\<close> as a whole, lines 86-91.\<close>

definition deallocateBlock_with_lock ::
  "heap \<Rightarrow> LockedPool \<Rightarrow> addr \<Rightarrow> (heap \<times> LockedPool) option" where
  "deallocateBlock_with_lock h obj block =
     (case lockPool (spinlock obj) of
        None \<Rightarrow> None
      | Some held \<Rightarrow>
          Some (fst (deallocateBlock h (members obj) block),
                \<lparr>spinlock = unlockPool held,
                 members = snd (deallocateBlock h (members obj) block)\<rparr>))"

section \<open>Free lists, block addresses and runs of operations\<close>

text \<open>
  The free list as the program sees it: starting at \<open>p\<close> and following \<^verbatim>\<open>next\<close>, the
  blocks \<open>bs\<close> are met in this order, none of them null, and then \<^verbatim>\<open>nullptr\<close>.
\<close>

fun free_chain :: "heap \<Rightarrow> addr \<Rightarrow> addr list \<Rightarrow> bool" where
  "free_chain h p [] = (p = 0)"
| "free_chain h p (b # bs) = (p = b \<and> b \<noteq> 0 \<and> free_chain h (load_next h b) bs)"

text \<open>Block \<open>i\<close> of a region that starts at \<open>start\<close>, and the first \<open>n\<close> blocks in order.\<close>

definition block_at :: "addr \<Rightarrow> size_t \<Rightarrow> nat \<Rightarrow> addr" where
  "block_at start bsz i = start + of_nat i * bsz"

definition blocks :: "addr \<Rightarrow> size_t \<Rightarrow> nat \<Rightarrow> addr list" where
  "blocks start bsz n = map (block_at start bsz) [0..<n]"

text \<open>
  What the environment must give for the linking loops to stay inside the address
  space: the reservation \<open>raw\<close> is not null and its
  \<^verbatim>\<open>blockSize * n + alignment - 1\<close> bytes end at or before the top of the address space
  (so the size did not wrap either).
\<close>

definition region_fits :: "addr \<Rightarrow> size_t \<Rightarrow> size_t \<Rightarrow> size_t \<Rightarrow> bool" where
  "region_fits raw bsz n a =
     (raw \<noteq> 0 \<and> unat raw + (unat bsz * unat n + unat a - 1) \<le> 2 ^ 64)"

text \<open>
  The same for blocks of any size, the constructor's own condition: the
  \<^verbatim>\<open>blockSize * n + alignment - 1\<close> bytes reserved at \<open>raw\<close> (not null) end at or before
  the top of the address space, the aligned start \<open>start\<close> is not below \<open>raw\<close>, and the
  last link the constructor writes, the eight bytes at block \<open>n - 1\<close> (block 0 when
  \<open>n\<close> is 0), ends inside the reservation. The links before it start lower.
\<close>

definition links_inside :: "addr \<Rightarrow> addr \<Rightarrow> size_t \<Rightarrow> size_t \<Rightarrow> size_t \<Rightarrow> bool" where
  "links_inside raw start bsz n a =
     (raw \<noteq> 0 \<and> unat raw \<le> unat start
      \<and> unat start + (unat n - 1) * unat bsz + 8 \<le> unat raw + (unat bsz * unat n + unat a - 1)
      \<and> unat raw + (unat bsz * unat n + unat a - 1) \<le> 2 ^ 64)"

text \<open>
  The \<^verbatim>\<open>next\<close> field of block \<open>b\<close> (eight bytes that do not wrap) lies outside the
  \<open>len\<close> bytes reserved at \<open>raw\<close>.
\<close>

definition slot_outside :: "addr \<Rightarrow> nat \<Rightarrow> addr \<Rightarrow> bool" where
  "slot_outside raw len b =
     (unat b + 8 \<le> unat raw \<or> (unat raw + len \<le> unat b \<and> unat b + 8 \<le> 2 ^ 64))"

text \<open>
  A sequential client of one pool: each call to \<^verbatim>\<open>allocateBlock\<close> comes with what
  \<^verbatim>\<open>operator new\<close> would answer during that call. A run keeps a log of what happened
  and stops at the first exception.
\<close>

datatype op = Allocate "size_t \<Rightarrow> addr option" | Deallocate addr | Reset

datatype event = Allocated addr | Deallocated addr | WasReset

fun exec_op :: "op \<Rightarrow> event list \<times> heap \<times> MemoryPool
    \<Rightarrow> error + (event list \<times> heap \<times> MemoryPool)" where
  "exec_op (Allocate operator_new) (log, h, p) =
     (case allocateBlock operator_new h p of
        Inl e \<Rightarrow> Inl e
      | Inr (b, h', p') \<Rightarrow> Inr (log @ [Allocated b], h', p'))"
| "exec_op (Deallocate b) (log, h, p) =
     Inr (log @ [Deallocated b], fst (deallocateBlock h p b), snd (deallocateBlock h p b))"
| "exec_op Reset (log, h, p) = Inr (log @ [WasReset], h, reset p)"

fun run_ops :: "op list \<Rightarrow> event list \<times> heap \<times> MemoryPool
    \<Rightarrow> error + (event list \<times> heap \<times> MemoryPool)" where
  "run_ops [] s = Inr s"
| "run_ops (x # xs) s = (case exec_op x s of Inl e \<Rightarrow> Inl e | Inr s' \<Rightarrow> run_ops xs s')"

text \<open>Construct a pool, then run operations on it.\<close>

definition construct_and_run ::
  "MemoryPool \<Rightarrow> (size_t \<Rightarrow> addr option) \<Rightarrow> heap \<Rightarrow> size_t \<Rightarrow> size_t \<Rightarrow> size_t \<Rightarrow> op list
     \<Rightarrow> error + (event list \<times> heap \<times> MemoryPool)" where
  "construct_and_run this operator_new h blocksize nblocks align ops =
     (case MemoryPool_ctor this operator_new h blocksize nblocks align of
        Inl e \<Rightarrow> Inl e
      | Inr (h', p) \<Rightarrow> run_ops ops ([], h', p))"

text \<open>
  The number of blocks handed out and not yet given back, read off a log: a
  successful allocation (a non-null result) adds one, a deallocation takes one
  away, a reset starts again from none.
\<close>

fun count_event :: "int \<Rightarrow> event \<Rightarrow> int" where
  "count_event c (Allocated b) = (if b = 0 then c else c + 1)"
| "count_event c (Deallocated b) = c - 1"
| "count_event c WasReset = 0"

definition outstanding :: "event list \<Rightarrow> int" where
  "outstanding log = foldl count_event 0 log"

section \<open>Auxiliary definitions for the proofs\<close>

text \<open>
  The linking loop run for \<open>k\<close> iterations, counted by a natural number. Lemma
  \<open>link_loop_link_n\<close> shows that \<open>link_loop i n\<close> is \<open>link_n\<close> for \<open>unat n - unat i\<close>
  iterations; the read-back \<^verbatim>\<open>currentBlock = currentBlock->next\<close> is then the address
  just stored.
\<close>

fun link_n :: "nat \<Rightarrow> size_t \<Rightarrow> heap \<Rightarrow> addr \<Rightarrow> heap \<times> addr" where
  "link_n 0 bsz h c = (h, c)"
| "link_n (Suc k) bsz h c = link_n k bsz (store_next h c (c + bsz)) (c + bsz)"

text \<open>
  A property of the state an operation or a run ends in; it is false when the
  operation raised.
\<close>

definition after :: "error + (heap \<times> MemoryPool) \<Rightarrow> (heap \<Rightarrow> MemoryPool \<Rightarrow> bool) \<Rightarrow> bool" where
  "after r P = (case r of Inl e \<Rightarrow> False | Inr (h, p) \<Rightarrow> P h p)"

definition after_run :: "error + (event list \<times> heap \<times> MemoryPool)
    \<Rightarrow> (event list \<Rightarrow> heap \<Rightarrow> MemoryPool \<Rightarrow> bool) \<Rightarrow> bool" where
  "after_run r P = (case r of Inl e \<Rightarrow> False | Inr (log, h, p) \<Rightarrow> P log h p)"

section \<open>Reading and writing links\<close>

lemma load_next_bytes:
  "load_next h a =
     ucast (h a) OR push_bit 8 (ucast (h (a + 1)) OR push_bit 8 (ucast (h (a + 2)) OR
     push_bit 8 (ucast (h (a + 3)) OR push_bit 8 (ucast (h (a + 4)) OR
     push_bit 8 (ucast (h (a + 5)) OR push_bit 8 (ucast (h (a + 6)) OR
     push_bit 8 (ucast (h (a + 7)))))))))"
  by (simp add: load_next_def upt_rec)

lemma recompose_bytes:
  fixes v :: "64 word"
  shows "take_bit 8 v OR push_bit 8 (take_bit 8 (drop_bit 8 v)) OR
     push_bit 16 (take_bit 8 (drop_bit 16 v)) OR push_bit 24 (take_bit 8 (drop_bit 24 v)) OR
     push_bit 32 (take_bit 8 (drop_bit 32 v)) OR push_bit 40 (take_bit 8 (drop_bit 40 v)) OR
     push_bit 48 (take_bit 8 (drop_bit 48 v)) OR
     push_bit 56 (take_bit 8 (drop_bit 56 v)) = v" (is "?lhs = v")
proof (rule bit_word_eqI)
  fix n assume "n < LENGTH(64)"
  then have n: "n < 64" by simp
  consider "n < 8" | "8 \<le> n" "n < 16" | "16 \<le> n" "n < 24" | "24 \<le> n" "n < 32"
    | "32 \<le> n" "n < 40" | "40 \<le> n" "n < 48" | "48 \<le> n" "n < 56" | "56 \<le> n" "n < 64"
    using n by linarith
  then show "bit ?lhs n = bit v n"
    by cases (simp_all add: bit_simps less_diff_conv2)
qed

lemma ucast_byte:
  "(ucast (ucast (w :: 64 word) :: 8 word) :: 64 word) = take_bit 8 w"
  by (rule bit_word_eqI) (simp add: bit_simps)

lemma load_store_same [simp]: "load_next (store_next h a v) a = v"
  by (simp add: load_next_bytes store_next_def ucast_byte recompose_bytes)

lemma load_next_zero_heap [simp]: "load_next (\<lambda>x. 0) a = 0"
  by (simp add: load_next_bytes)

lemma store_next_outside: "8 \<le> x - a \<Longrightarrow> store_next h a v x = h x"
  by (simp add: store_next_def not_less [symmetric])

lemma store_next_twice: "store_next (store_next h a u) a v = store_next h a v"
  by (rule ext) (simp add: store_next_def)

lemma far_plus:
  fixes d j :: "64 word"
  assumes "8 \<le> d" "8 \<le> - d" "j < 8"
  shows "8 \<le> d + j"
  using assms unat_sub_if_size [of 0 d]
  by (simp add: word_le_nat_alt word_less_nat_alt unat_plus_if_size word_size
      split: if_splits)

lemma far_byte:
  fixes a b j :: "64 word"
  assumes "8 \<le> b - a" "8 \<le> a - b" "j < 8"
  shows "8 \<le> b + j - a"
proof -
  have "8 \<le> (b - a) + j" using assms by (intro far_plus) simp_all
  then show ?thesis by (simp add: algebra_simps)
qed

lemma load_store_other:
  assumes "8 \<le> b - a" "8 \<le> a - b"
  shows "load_next (store_next h a v) b = load_next h b"
proof -
  have "store_next h a v (b + j) = h (b + j)" if "j < 8" for j
    using far_byte [OF assms that] by (rule store_next_outside)
  moreover have "store_next h a v b = h b"
    using assms(1) by (rule store_next_outside)
  ultimately show ?thesis by (simp add: load_next_bytes)
qed

lemma load_next_cong:
  assumes "\<And>i. i < 8 \<Longrightarrow> h (a + of_nat i) = h' (a + of_nat i)"
  shows "load_next h a = load_next h' a"
  using assms [of 0] assms [of 1] assms [of 2] assms [of 3] assms [of 4] assms [of 5]
    assms [of 6] assms [of 7]
  by (simp add: load_next_bytes)

lemma unat_plus_no_wrap:
  fixes c b :: "64 word"
  assumes "unat c + unat b < 2 ^ 64"
  shows "unat (c + b) = unat c + unat b"
  using assms by (simp add: unat_plus_if_size word_size)

lemma unat_plus_of_nat:
  fixes c :: "64 word"
  assumes "unat c + i < 2 ^ 64"
  shows "unat (c + of_nat i) = unat c + i"
  using assms by (simp add: unat_plus_if_size word_size unat_of_nat)

lemma byte_outside:
  fixes x c :: "64 word"
  assumes "unat x < unat c \<or> unat c + 8 \<le> unat x" "unat c + 8 \<le> 2 ^ 64"
  shows "8 \<le> x - c"
  using assms unsigned_less [of x, where ?'a = nat]
  by (auto simp add: word_le_nat_alt unat_sub_if_size word_size)

lemma slots_disjoint:
  fixes a b :: "64 word"
  assumes "unat a + 8 \<le> unat b" "unat b + 8 \<le> 2 ^ 64"
  shows "8 \<le> b - a" "8 \<le> a - b"
  using assms by (auto simp add: word_le_nat_alt unat_sub_if_size word_size)

lemma load_store_disjoint:
  fixes a b :: "64 word"
  assumes "unat a + 8 \<le> unat b \<or> unat b + 8 \<le> unat a" "unat a + 8 \<le> 2 ^ 64"
    "unat b + 8 \<le> 2 ^ 64"
  shows "load_next (store_next h a v) b = load_next h b"
  using assms slots_disjoint [of a b] slots_disjoint [of b a]
  by (auto intro: load_store_other)

section \<open>The spin lock taken and held\<close>

lemma lockPool_Some:
  assumes "lockPool flag = Some y"
  shows "\<not> flag \<and> y"
proof (rule lockPool.raw_induct [where P = "\<lambda>flag y. \<not> flag \<and> y", OF _ assms])
  fix f :: "bool \<Rightarrow> bool option" and flag y
  assume IH: "\<And>flag y. f flag = Some y \<Longrightarrow> \<not> flag \<and> y"
    and step: "(if flag then f True else Some True) = Some y"
  show "\<not> flag \<and> y"
  proof (cases flag)
    case True
    with step have "f True = Some y" by simp
    from IH [OF this] show ?thesis by simp
  next
    case False
    with step show ?thesis by simp
  qed
qed

lemma lockPool_free [simp]: "lockPool False = Some True"
  by (simp add: lockPool.simps)

lemma lockPool_held [simp]: "lockPool True = None"
  using lockPool_Some [of True] by (cases "lockPool True") auto

lemma allocateBlock_with_lock_returns:
  assumes "allocateBlock_with_lock nw h obj = Some (Inr (b, h', obj'))"
  shows "\<not> spinlock obj \<and> \<not> spinlock obj'"
  using assms
  by (cases "spinlock obj")
    (auto simp: allocateBlock_with_lock_def unlockPool_def split: sum.splits)

lemma deallocateBlock_with_lock_returns:
  assumes "deallocateBlock_with_lock h obj b = Some (h', obj')"
  shows "\<not> spinlock obj \<and> \<not> spinlock obj'"
  using assms
  by (cases "spinlock obj") (auto simp: deallocateBlock_with_lock_def unlockPool_def)

lemma allocateBlock_with_lock_raises:
  assumes "allocateBlock_with_lock nw h obj = Some (Inl (e, h', obj'))"
  shows "\<not> spinlock obj \<and> spinlock obj' \<and> h' = h \<and> members obj' = members obj"
  using assms
  by (cases "spinlock obj")
    (auto simp: allocateBlock_with_lock_def split: sum.splits)

section \<open>The power-of-two test and rounding up\<close>

lemma and_pred_nat:
  fixes n :: nat
  shows "0 < n \<Longrightarrow> n AND (n - 1) = 0 \<Longrightarrow> \<exists>k. n = 2 ^ k"
proof (induction n rule: less_induct)
  case (less n)
  show ?case
  proof (cases "even n")
    case True
    then obtain m where m: "n = 2 * m" by (auto elim: evenE)
    with less.prems have m0: "0 < m" by simp
    have "n - 1 = 2 * (m - 1) + 1" using m m0 by simp
    then have "n AND (n - 1) = 2 * (m AND (m - 1))"
      using m by (subst and_nat_rec) simp
    with less.prems have "m AND (m - 1) = 0" by simp
    moreover have "m < n" using m m0 by simp
    ultimately obtain k where "m = 2 ^ k" using less.IH m0 by blast
    then have "n = 2 ^ Suc k" using m by simp
    then show ?thesis by blast
  next
    case False
    then obtain m where m: "n = 2 * m + 1" by (auto elim: oddE)
    then have "n AND (n - 1) = 2 * (m AND m)"
      by (subst and_nat_rec) simp
    with less.prems have "m = 0" by simp
    then have "n = 2 ^ 0" using m by simp
    then show ?thesis by blast
  qed
qed

lemma is_pow2_iff: "is_pow2 a = (\<exists>k<64. a = 2 ^ k)"
  by (auto simp: is_pow2_def)

lemma pow2_and_pred:
  fixes a :: "64 word"
  assumes "k < 64" shows "(2 ^ k :: 64 word) \<noteq> 0" "(2 ^ k :: 64 word) AND (2 ^ k - 1) = 0"
proof -
  show "(2 ^ k :: 64 word) \<noteq> 0" using assms by simp
  have "(2 ^ k :: 64 word) - 1 = mask k" by (simp add: mask_eq_exp_minus_1)
  moreover have "take_bit k (2 ^ k :: 64 word) = 0"
    by (rule bit_word_eqI) (auto simp add: bit_simps)
  ultimately show "(2 ^ k :: 64 word) AND (2 ^ k - 1) = 0"
    by (simp flip: take_bit_eq_mask)
qed

lemma and_pred_word:
  fixes a :: "64 word"
  assumes "a \<noteq> 0" "a AND (a - 1) = 0"
  shows "is_pow2 a"
proof -
  have "unat a AND (unat a - 1) = unat (a AND (a - 1))"
    using assms(1) by (simp add: unsigned_and_eq unat_minus_one)
  then have "unat a AND (unat a - 1) = 0" using assms(2) by simp
  moreover have "0 < unat a" using assms(1) by (simp add: unat_gt_0)
  ultimately obtain k where k: "unat a = 2 ^ k" using and_pred_nat by blast
  have "(2::nat) ^ k < 2 ^ LENGTH(64)"
    unfolding k [symmetric] by (rule unsigned_less)
  then have "k < LENGTH(64)" by (rule power_less_imp_less_exp [rotated]) simp
  then have "k < 64" by simp
  moreover have "a = 2 ^ k"
  proof -
    have "a = of_nat (unat a)" by simp
    also have "\<dots> = of_nat (2 ^ k)" by (simp only: k)
    finally show ?thesis by simp
  qed
  ultimately show ?thesis by (auto simp: is_pow2_iff)
qed

lemma pow2_test: "(a \<noteq> 0 \<and> a AND (a - 1) = 0) = is_pow2 a"
  using and_pred_word pow2_and_pred by (auto simp: is_pow2_iff)

lemma is_pow2_8: "is_pow2 8"
  using pow2_test [of 8] by simp

lemma not_is_pow2_12: "\<not> is_pow2 12"
  using pow2_test [of 12] by simp

lemma unat_2p:
  assumes "k < 64"
  shows "unat (2 ^ k :: 64 word) = 2 ^ k"
proof -
  have lt: "(2::nat) ^ k < 2 ^ 64" using assms by (intro power_strict_increasing) simp_all
  have "unat (2 ^ k :: 64 word) = unat (of_nat (2 ^ k) :: 64 word)" by simp
  also have "\<dots> = 2 ^ k mod 2 ^ LENGTH(64)" by (rule unat_of_nat)
  also have "\<dots> = 2 ^ k" using lt by simp
  finally show ?thesis .
qed

lemma is_pow2_dvd:
  assumes "is_pow2 a"
  shows "unat a dvd 2 ^ 64" "a \<noteq> 0" "0 < unat a"
proof -
  from assms obtain k where k: "k < 64" "a = 2 ^ k" by (auto simp: is_pow2_iff)
  then have u: "unat a = 2 ^ k" by (simp add: unat_2p)
  show "unat a dvd 2 ^ 64" unfolding u using k(1) by (intro le_imp_power_dvd) simp
  show "a \<noteq> 0" using k by simp
  then show "0 < unat a" by (simp add: unat_gt_0)
qed

lemma align_nat_multiple:
  fixes a p :: nat
  assumes "0 < a"
  shows "(p + (a - p mod a) mod a) mod a = 0"
proof (cases "p mod a = 0")
  case True
  then show ?thesis by simp
next
  case False
  then have "(a - p mod a) mod a = a - p mod a" using assms by simp
  moreover have "p + (a - p mod a) = a * (p div a) + a"
    using mod_less_divisor [OF assms, of p] mult_div_mod_eq [of a p] by linarith
  ultimately show ?thesis by simp
qed

lemma align_nat_least:
  fixes a p q :: nat
  assumes "0 < a" "q mod a = 0" "p \<le> q"
  shows "p + (a - p mod a) mod a \<le> q"
proof (cases "p mod a = 0")
  case True
  then show ?thesis using assms by simp
next
  case False
  then have adj: "(a - p mod a) mod a = a - p mod a" using assms by simp
  have "p + (a - p mod a) = a * (p div a) + a"
    using mod_less_divisor [OF assms(1), of p] mult_div_mod_eq [of a p] by linarith
  then have r: "p + (a - p mod a) = a * (p div a + 1)" by simp
  have q: "q = a * (q div a)" using assms(2) by auto
  have "p div a < q div a"
  proof (rule ccontr)
    assume "\<not> p div a < q div a"
    then have "q div a \<le> p div a" by simp
    then have "a * (q div a) \<le> a * (p div a)" by simp
    then have "q \<le> a * (p div a)" using q by simp
    moreover have "a * (p div a) < p" using False mult_div_mod_eq [of a p] by linarith
    ultimately show False using assms(3) by simp
  qed
  then have "p div a + 1 \<le> q div a" by simp
  then have "a * (p div a + 1) \<le> a * (q div a)" by (rule mult_le_mono2)
  then show ?thesis using adj r q by simp
qed

lemma unat_adjustment:
  fixes a p :: "64 word"
  assumes "a \<noteq> 0"
  shows "unat ((a - p mod a) mod a) = (unat a - unat p mod unat a) mod unat a"
proof -
  have "p mod a \<le> a" using assms by (simp add: word_mod_less_divisor word_neq_0_conv less_imp_le)
  then have "unat (a - p mod a) = unat a - unat (p mod a)" by (rule unat_sub)
  then show ?thesis by (simp add: unat_mod)
qed

lemma unat_plus_adjustment:
  fixes a p :: "64 word"
  assumes "a \<noteq> 0"
  shows "unat (p + (a - p mod a) mod a)
    = (unat p + (unat a - unat p mod unat a) mod unat a) mod 2 ^ 64"
proof -
  have "unat (p + (a - p mod a) mod a) = (unat p + unat ((a - p mod a) mod a)) mod 2 ^ LENGTH(64)"
    by (rule unat_word_ariths(1))
  then show ?thesis by (simp only: unat_adjustment [OF assms]) simp
qed

lemma alignPointer_pow2:
  assumes "is_pow2 a"
  shows "alignPointer p a = Inr (p + (a - p mod a) mod a)"
  using assms pow2_test [of a] by (simp add: alignPointer_def)

lemma alignPointer_Inr_pow2:
  assumes "alignPointer p a = Inr r"
  shows "is_pow2 a" "r = p + (a - p mod a) mod a"
  using assms pow2_test [of a] by (auto simp: alignPointer_def Let_def split: if_splits)

lemma alignPointer_0x1000: "alignPointer 0x1000 8 = Inr 0x1000"
  by (simp add: alignPointer_def)

lemma aligned_multiple:
  assumes "is_pow2 a"
  shows "(p + (a - p mod a) mod a) mod a = 0"
proof -
  let ?adj = "(unat a - unat p mod unat a) mod unat a"
  note d = is_pow2_dvd [OF assms]
  have "unat (p + (a - p mod a) mod a) = (unat p + ?adj) mod 2 ^ 64"
    by (rule unat_plus_adjustment [OF d(2)])
  then have "unat ((p + (a - p mod a) mod a) mod a) = (unat p + ?adj) mod 2 ^ 64 mod unat a"
    by (simp only: unat_mod)
  also have "\<dots> = (unat p + ?adj) mod unat a" using d(1) by (rule mod_mod_cancel)
  also have "\<dots> = 0" using d(3) by (rule align_nat_multiple)
  finally show ?thesis by (simp add: unat_eq_0)
qed

lemma aligned_no_wrap:
  fixes a p :: "64 word"
  assumes "a \<noteq> 0" "unat p + (unat a - 1) < 2 ^ 64"
  shows "unat (p + (a - p mod a) mod a) = unat p + (unat a - unat p mod unat a) mod unat a"
proof -
  have "0 < unat a" using assms(1) by (simp add: unat_gt_0)
  then have "(unat a - unat p mod unat a) mod unat a < unat a" by simp
  then have "unat p + (unat a - unat p mod unat a) mod unat a < 2 ^ 64"
    using assms(2) by linarith
  then show ?thesis
    by (simp add: unat_plus_adjustment [OF assms(1)])
qed

lemma aligned_least:
  assumes "is_pow2 a" "q mod a = 0" "p \<le> q"
  shows "p \<le> p + (a - p mod a) mod a" "p + (a - p mod a) mod a \<le> q"
proof -
  let ?adj = "(unat a - unat p mod unat a) mod unat a"
  note d = is_pow2_dvd [OF assms(1)]
  have "unat q mod unat a = 0" using assms(2) by (metis unat_mod unat_0)
  moreover have "unat p \<le> unat q" using assms(3) by (simp add: word_le_nat_alt)
  ultimately have le: "unat p + ?adj \<le> unat q" using d(3) by (intro align_nat_least)
  moreover have "unat q < 2 ^ 64" using unsigned_less [of q, where ?'a = nat] by simp
  ultimately have "unat p + ?adj < 2 ^ 64" by linarith
  then have u: "unat (p + (a - p mod a) mod a) = unat p + ?adj"
    by (simp add: unat_plus_adjustment [OF d(2)])
  show "p \<le> p + (a - p mod a) mod a" by (simp add: word_le_nat_alt u)
  show "p + (a - p mod a) mod a \<le> q" using le by (simp add: word_le_nat_alt u)
qed

section \<open>The linking loop\<close>

lemma link_loop_link_n:
  "link_loop i n bsz h c = link_n (unat n - unat i) bsz h c"
proof (induction i n bsz h c rule: link_loop.induct)
  case (1 i n bsz h c)
  show ?case
  proof (cases "i < n")
    case True
    then have "unat i < unat n" by (simp add: word_less_nat_alt)
    moreover from True have "unat (i + 1) = Suc (unat i)"
      using unsigned_less [of n, where ?'a = nat]
      by (simp add: unat_plus_if_size word_size word_less_nat_alt)
    ultimately have "unat n - unat i = Suc (unat n - unat (i + 1))" by simp
    then show ?thesis using True 1 [OF True] by (subst link_loop.simps) simp
  next
    case False
    then have "unat n - unat i = 0" by (simp add: word_less_nat_alt)
    then show ?thesis using False by (subst link_loop.simps) simp
  qed
qed

lemma link_n_numeral:
  "link_n (numeral k) bsz h c
     = link_n (pred_numeral k) bsz (store_next h c (c + bsz)) (c + bsz)"
  by (simp add: numeral_eq_Suc)

lemma snd_link_n: "snd (link_n k bsz h c) = c + of_nat k * bsz"
  by (induction k arbitrary: h c) (simp_all add: algebra_simps)

lemma fst_link_n_outside:
  assumes "8 \<le> unat bsz" "unat c + (k + 1) * unat bsz \<le> 2 ^ 64"
    and "unat x < unat c \<or> unat c + k * unat bsz \<le> unat x"
  shows "fst (link_n k bsz h c) x = h x"
  using assms
proof (induction k arbitrary: h c)
  case 0
  then show ?case by simp
next
  case (Suc k)
  have fit: "unat c + unat bsz + (k + 1) * unat bsz \<le> 2 ^ 64" using Suc.prems(2) by simp
  then have "unat c + unat bsz < 2 ^ 64" using Suc.prems(1) by simp
  then have c': "unat (c + bsz) = unat c + unat bsz" by (rule unat_plus_no_wrap)
  have "fst (link_n k bsz (store_next h c (c + bsz)) (c + bsz)) x
      = store_next h c (c + bsz) x"
    using Suc.prems fit by (intro Suc.IH) (auto simp: c')
  also have "\<dots> = h x"
  proof (rule store_next_outside, rule byte_outside)
    show "unat x < unat c \<or> unat c + 8 \<le> unat x" using Suc.prems(1,3) by auto
    show "unat c + 8 \<le> 2 ^ 64" using Suc.prems(1) fit by simp
  qed
  finally show ?case by simp
qed

lemma load_link_n_below:
  assumes "8 \<le> unat bsz" "unat c + (k + 1) * unat bsz \<le> 2 ^ 64"
    and "unat a + 8 \<le> unat c"
  shows "load_next (fst (link_n k bsz h c)) a = load_next h a"
proof (rule load_next_cong)
  fix i :: nat assume "i < 8"
  then have "unat (a + of_nat i) = unat a + i"
    using assms(3) unsigned_less [of c, where ?'a = nat] by (intro unat_plus_of_nat) simp
  then have "unat (a + of_nat i) < unat c" using \<open>i < 8\<close> assms(3) by simp
  then show "fst (link_n k bsz h c) (a + of_nat i) = h (a + of_nat i)"
    using assms(1,2) by (intro fst_link_n_outside) auto
qed

lemma load_link_n:
  assumes "8 \<le> unat bsz" "unat c + (k + 1) * unat bsz \<le> 2 ^ 64" "j < k"
  shows "load_next (fst (link_n k bsz h c)) (c + of_nat j * bsz) = c + of_nat (Suc j) * bsz"
  using assms
proof (induction k arbitrary: h c j)
  case 0
  then show ?case by simp
next
  case (Suc k)
  have fit: "unat c + unat bsz + (k + 1) * unat bsz \<le> 2 ^ 64" using Suc.prems(2) by simp
  then have "unat c + unat bsz < 2 ^ 64" using Suc.prems(1) by simp
  then have c': "unat (c + bsz) = unat c + unat bsz" by (rule unat_plus_no_wrap)
  show ?case
  proof (cases j)
    case 0
    have "load_next (fst (link_n k bsz (store_next h c (c + bsz)) (c + bsz))) c
        = load_next (store_next h c (c + bsz)) c"
      using Suc.prems(1) fit by (intro load_link_n_below) (auto simp: c')
    then show ?thesis using 0 by simp
  next
    case (Suc j')
    then have "j' < k" using Suc.prems(3) by simp
    then have "load_next (fst (link_n k bsz (store_next h c (c + bsz)) (c + bsz)))
          (c + bsz + of_nat j' * bsz) = c + bsz + of_nat (Suc j') * bsz"
      using Suc.prems(1) fit by (intro Suc.IH) (auto simp: c')
    then show ?thesis using Suc by (simp add: algebra_simps)
  qed
qed

lemma unat_block_at:
  assumes "unat s + j * unat bsz < 2 ^ 64"
  shows "unat (block_at s bsz j) = unat s + j * unat bsz"
proof -
  have "unat (of_nat j * bsz) = (j mod 2 ^ 64 * unat bsz) mod 2 ^ 64"
    by (simp add: unat_word_ariths(2) unat_of_nat)
  also have "\<dots> = (j * unat bsz) mod 2 ^ 64" by (rule mod_mult_left_eq)
  also have "\<dots> = j * unat bsz" using assms by simp
  finally have m: "unat (of_nat j * bsz) = j * unat bsz" .
  then have "unat s + unat (of_nat j * bsz) < 2 ^ 64" using assms by simp
  then have "unat (s + of_nat j * bsz) = unat s + unat (of_nat j * bsz)"
    by (rule unat_plus_no_wrap)
  then show ?thesis by (simp add: block_at_def m)
qed

text \<open>The heap after the loop and the store that ends the chain.\<close>

lemma linked:
  fixes s bsz :: "64 word"
  assumes B: "8 \<le> unat bsz" and m: "0 < m" and fit: "unat s + m * unat bsz \<le> 2 ^ 64"
  shows "snd (link_n (m - 1) bsz h s) = block_at s bsz (m - 1)"
    and "Suc j < m \<Longrightarrow>
      load_next (store_next (fst (link_n (m - 1) bsz h s)) (block_at s bsz (m - 1)) v)
        (block_at s bsz j) = block_at s bsz (Suc j)"
    and "load_next (store_next (fst (link_n (m - 1) bsz h s)) (block_at s bsz (m - 1)) v)
        (block_at s bsz (m - 1)) = v"
proof -
  show "snd (link_n (m - 1) bsz h s) = block_at s bsz (m - 1)"
    by (simp add: snd_link_n block_at_def)
  show "load_next (store_next (fst (link_n (m - 1) bsz h s)) (block_at s bsz (m - 1)) v)
        (block_at s bsz (m - 1)) = v" by simp
  assume j: "Suc j < m"
  have fit': "unat s + (m - 1 + 1) * unat bsz \<le> 2 ^ 64" using m fit by simp
  have "(m - 1) * unat bsz + unat bsz = m * unat bsz" using m by (simp add: algebra_simps)
  have last: "unat (block_at s bsz (m - 1)) = unat s + (m - 1) * unat bsz"
    using B m fit \<open>(m - 1) * unat bsz + unat bsz = m * unat bsz\<close>
    by (intro unat_block_at) linarith
  have "Suc j * unat bsz \<le> (m - 1) * unat bsz" using j by (intro mult_le_mono1) simp
  then have jle: "j * unat bsz + unat bsz \<le> (m - 1) * unat bsz" by simp
  have bj: "unat (block_at s bsz j) = unat s + j * unat bsz"
    using B fit jle \<open>(m - 1) * unat bsz + unat bsz = m * unat bsz\<close>
    by (intro unat_block_at) linarith
  have d1: "unat (block_at s bsz j) + 8 \<le> unat (block_at s bsz (m - 1))"
    unfolding last bj using B jle by linarith
  have d2: "unat (block_at s bsz (m - 1)) + 8 \<le> 2 ^ 64"
    unfolding last using B fit \<open>(m - 1) * unat bsz + unat bsz = m * unat bsz\<close> by linarith
  have d3: "unat (block_at s bsz j) + 8 \<le> 2 ^ 64" using d1 d2 by linarith
  have "load_next (store_next (fst (link_n (m - 1) bsz h s)) (block_at s bsz (m - 1)) v)
        (block_at s bsz j) = load_next (fst (link_n (m - 1) bsz h s)) (block_at s bsz j)"
    using d1 d2 d3 by (intro load_store_disjoint) simp_all
  also have "\<dots> = block_at s bsz (Suc j)"
    unfolding block_at_def using B fit' j by (intro load_link_n) simp_all
  finally show "load_next (store_next (fst (link_n (m - 1) bsz h s)) (block_at s bsz (m - 1)) v)
        (block_at s bsz j) = block_at s bsz (Suc j)" .
qed

lemma load_outside_region:
  fixes s bsz b :: "64 word"
  assumes B: "8 \<le> unat bsz" and m: "0 < m" and fit: "unat s + m * unat bsz \<le> 2 ^ 64"
    and out: "unat b + 8 \<le> unat s \<or> (unat s + m * unat bsz \<le> unat b \<and> unat b + 8 \<le> 2 ^ 64)"
  shows "load_next (store_next (fst (link_n (m - 1) bsz h s)) (block_at s bsz (m - 1)) v) b
    = load_next h b"
proof -
  have eq: "(m - 1) * unat bsz + unat bsz = m * unat bsz" using m by (simp add: algebra_simps)
  have last: "unat (block_at s bsz (m - 1)) = unat s + (m - 1) * unat bsz"
    using B m fit eq by (intro unat_block_at) linarith
  have b8: "unat b + 8 \<le> 2 ^ 64"
    using out unsigned_less [of s, where ?'a = nat] by auto
  have d1: "unat (block_at s bsz (m - 1)) + 8 \<le> unat b \<or> unat b + 8 \<le> unat (block_at s bsz (m - 1))"
    unfolding last using B out eq by linarith
  have d2: "unat (block_at s bsz (m - 1)) + 8 \<le> 2 ^ 64"
    unfolding last using B fit eq by linarith
  have "load_next (store_next (fst (link_n (m - 1) bsz h s)) (block_at s bsz (m - 1)) v) b
      = load_next (fst (link_n (m - 1) bsz h s)) b"
    using d1 d2 b8 by (intro load_store_disjoint) simp_all
  also have "\<dots> = load_next h b"
  proof (rule load_next_cong)
    fix i :: nat assume i: "i < 8"
    then have u: "unat (b + of_nat i) = unat b + i"
      using b8 by (intro unat_plus_of_nat) simp
    have fit': "unat s + (m - 1 + 1) * unat bsz \<le> 2 ^ 64" using m fit by simp
    have "unat (b + of_nat i) < unat s \<or> unat s + (m - 1) * unat bsz \<le> unat (b + of_nat i)"
      unfolding u using out i eq by linarith
    then show "fst (link_n (m - 1) bsz h s) (b + of_nat i) = h (b + of_nat i)"
      using B fit' by (intro fst_link_n_outside)
  qed
  finally show ?thesis .
qed

lemma block_at_facts:
  fixes s bsz :: "64 word"
  assumes B: "8 \<le> unat bsz" and fit: "unat s + m * unat bsz \<le> 2 ^ 64" and s: "0 < unat s"
    and j: "j < m"
  shows "unat (block_at s bsz j) = unat s + j * unat bsz" "block_at s bsz j \<noteq> 0"
proof -
  have "Suc j * unat bsz \<le> m * unat bsz" using j by (intro mult_le_mono1) simp
  then have "unat s + j * unat bsz + unat bsz \<le> 2 ^ 64" using fit by simp
  then show u: "unat (block_at s bsz j) = unat s + j * unat bsz"
    using B by (intro unat_block_at) linarith
  show "block_at s bsz j \<noteq> 0" using u s by (auto simp: unat_eq_0 [symmetric] simp del: unat_eq_0)
qed

lemma distinct_blocks:
  fixes s bsz :: "64 word"
  assumes B: "8 \<le> unat bsz" and fit: "unat s + m * unat bsz \<le> 2 ^ 64" and s: "0 < unat s"
  shows "distinct (blocks s bsz m)"
proof -
  have "inj_on (block_at s bsz) {0..<m}"
  proof (rule inj_onI)
    fix i j assume ij: "i \<in> {0..<m}" "j \<in> {0..<m}" "block_at s bsz i = block_at s bsz j"
    then have i: "i < m" and j: "j < m" by simp_all
    have "unat (block_at s bsz i) = unat (block_at s bsz j)" using ij(3) by (rule arg_cong)
    then have "unat s + i * unat bsz = unat s + j * unat bsz"
      by (simp only: block_at_facts(1) [OF B fit s i] block_at_facts(1) [OF B fit s j])
    then have "i * unat bsz = j * unat bsz" by simp
    moreover have "0 < unat bsz" using B by simp
    ultimately show "i = j" by simp
  qed
  then show ?thesis by (simp add: blocks_def distinct_map)
qed

lemma free_chain_upt:
  assumes "\<And>j. j < m \<Longrightarrow> block_at s bsz j \<noteq> 0"
    and "\<And>j. Suc j < m \<Longrightarrow> load_next h (block_at s bsz j) = block_at s bsz (Suc j)"
    and "free_chain h (load_next h (block_at s bsz (m - 1))) rest"
    and "i < m"
  shows "free_chain h (block_at s bsz i) (map (block_at s bsz) [i..<m] @ rest)"
  using assms(4)
proof (induction "m - Suc i" arbitrary: i)
  case 0
  then have "m = Suc i" by simp
  then show ?case using assms(1) [of i] assms(3) by simp
next
  case (Suc k)
  then have lt: "Suc i < m" by simp
  then have "k = m - Suc (Suc i)" using Suc(2) by simp
  then have "free_chain h (block_at s bsz (Suc i)) (map (block_at s bsz) [Suc i..<m] @ rest)"
    using lt by (rule Suc(1))
  then show ?case
    using assms(1) [of i] assms(2) [OF lt] Suc.prems by (simp add: upt_conv_Cons)
qed

lemma free_chain_blocks:
  assumes "\<And>j. j < m \<Longrightarrow> block_at s bsz j \<noteq> 0"
    and "\<And>j. Suc j < m \<Longrightarrow> load_next h (block_at s bsz j) = block_at s bsz (Suc j)"
    and "free_chain h (load_next h (block_at s bsz (m - 1))) rest"
    and "0 < m"
  shows "free_chain h (block_at s bsz 0) (blocks s bsz m @ rest)"
  unfolding blocks_def using assms by (rule free_chain_upt)

lemma free_chain_frame:
  assumes "free_chain h p bs" "\<And>b. b \<in> set bs \<Longrightarrow> load_next h' b = load_next h b"
  shows "free_chain h' p bs"
  using assms by (induction bs arbitrary: p) auto

lemma chain_after_linking:
  fixes s bsz :: "64 word"
  assumes B: "8 \<le> unat bsz" and m: "0 < m" and fit: "unat s + m * unat bsz \<le> 2 ^ 64"
    and s: "0 < unat s"
    and old: "free_chain h v old"
      "\<And>b. b \<in> set old \<Longrightarrow> unat b + 8 \<le> unat s \<or>
          (unat s + m * unat bsz \<le> unat b \<and> unat b + 8 \<le> 2 ^ 64)"
  shows "free_chain (store_next (fst (link_n (m - 1) bsz h s)) (block_at s bsz (m - 1)) v)
     (block_at s bsz 0) (blocks s bsz m @ old)"
proof (rule free_chain_blocks)
  let ?h = "store_next (fst (link_n (m - 1) bsz h s)) (block_at s bsz (m - 1)) v"
  show "block_at s bsz j \<noteq> 0" if "j < m" for j
    using block_at_facts(2) [OF B fit s that] .
  show "load_next ?h (block_at s bsz j) = block_at s bsz (Suc j)" if "Suc j < m" for j
    using linked(2) [OF B m fit that] .
  have "free_chain ?h v old"
    using old(1)
  proof (rule free_chain_frame)
    fix b assume "b \<in> set old"
    then show "load_next ?h b = load_next h b"
      using old(2) by (intro load_outside_region [OF B m fit])
  qed
  then show "free_chain ?h (load_next ?h (block_at s bsz (m - 1))) old"
    by (simp only: linked(3) [OF B m fit])
  show "0 < m" by (rule m)
qed

section \<open>The constructor, growth and runs\<close>

lemma aligned_in_region:
  assumes al: "alignPointer raw a = Inr s" and fits: "region_fits raw bsz n a"
    and B: "8 \<le> unat bsz" and n: "0 < unat n"
  shows "unat raw \<le> unat s"
    and "unat s + unat n * unat bsz \<le> unat raw + (unat bsz * unat n + unat a - 1)"
    and "unat s + unat n * unat bsz \<le> 2 ^ 64"
    and "0 < unat s"
proof -
  note p = alignPointer_Inr_pow2 [OF al]
  note d = is_pow2_dvd [OF p(1)]
  have "8 * 1 \<le> unat bsz * unat n" using B n by (intro mult_le_mono) simp_all
  then have big: "8 \<le> unat bsz * unat n" by simp
  have R: "unat raw + (unat bsz * unat n + unat a - 1) \<le> 2 ^ 64" "raw \<noteq> 0"
    using fits by (simp_all add: region_fits_def)
  then have "unat raw + (unat a - 1) < 2 ^ 64" using big d(3) by linarith
  then have u: "unat s = unat raw + (unat a - unat raw mod unat a) mod unat a"
    unfolding p(2) by (intro aligned_no_wrap d(2))
  have adj: "(unat a - unat raw mod unat a) mod unat a < unat a" using d(3) by simp
  show "unat raw \<le> unat s" using u by simp
  show le: "unat s + unat n * unat bsz \<le> unat raw + (unat bsz * unat n + unat a - 1)"
    using u adj by (simp add: mult.commute)
  show "unat s + unat n * unat bsz \<le> 2 ^ 64" using le R(1) by linarith
  have "0 < unat raw" using R(2) by (simp add: unat_gt_0)
  then show "0 < unat s" using u by simp
qed

lemma MemoryPool_ctor_Inr:
  assumes "MemoryPool_ctor this nw h bsz n a = Inr (h', pl)"
  shows "\<exists>raw s. nw (bsz * n + a - 1) = Some raw \<and> alignPointer raw a = Inr s
    \<and> freeList pl = s \<and> poolStart pl = s \<and> blockSize pl = bsz \<and> totalBlocks pl = n
    \<and> usedBlocks pl = usedBlocks this \<and> alignment pl = a
    \<and> h' = store_next (fst (link_n (unat n - 1) bsz h s)) (block_at s bsz (unat n - 1)) 0"
  using assms
  by (auto simp: MemoryPool_ctor_def initializeMemoryPool_def Let_def link_loop_link_n
      snd_link_n block_at_def split: option.splits sum.splits)

lemma MemoryPool_ctor_succeeds:
  assumes "nw (bsz * n + a - 1) = Some raw" "alignPointer raw a = Inr s"
  shows "MemoryPool_ctor this nw h bsz n a
    = Inr (store_next (fst (link_n (unat n - 1) bsz h s)) (block_at s bsz (unat n - 1)) 0,
           this\<lparr>freeList := s, poolStart := s, blockSize := bsz, totalBlocks := n,
                alignment := a\<rparr>)"
  using assms
  by (simp add: MemoryPool_ctor_def initializeMemoryPool_def Let_def link_loop_link_n
      snd_link_n block_at_def)

lemma resizePool_Inr:
  assumes "resizePool nw h this = Inr (h', this')"
  shows "\<exists>raw s. nw (blockSize this * (totalBlocks this + totalBlocks this div 2)
            + alignment this - 1) = Some raw \<and> raw \<noteq> 0
    \<and> alignPointer raw (alignment this) = Inr s
    \<and> this' = this\<lparr>freeList := s, totalBlocks := totalBlocks this + totalBlocks this div 2\<rparr>"
  using assms
  by (auto simp: resizePool_def Let_def split: option.splits sum.splits if_splits)

lemma resizePool_succeeds:
  assumes "nw (blockSize this * (totalBlocks this + totalBlocks this div 2) + alignment this - 1)
      = Some raw" "raw \<noteq> 0" "alignPointer raw (alignment this) = Inr s"
  shows "resizePool nw h this
    = Inr (store_next (fst (link_n (unat (totalBlocks this + totalBlocks this div 2) - 1)
               (blockSize this) h s))
             (block_at s (blockSize this) (unat (totalBlocks this + totalBlocks this div 2) - 1))
             (freeList this),
           this\<lparr>freeList := s, totalBlocks := totalBlocks this + totalBlocks this div 2\<rparr>)"
  using assms
  by (simp add: resizePool_def Let_def link_loop_link_n snd_link_n block_at_def store_next_twice)

lemma exec_op_poolStart:
  assumes "exec_op x (log, h, p) = Inr (log', h', p')"
  shows "poolStart p' = poolStart p"
proof (cases x)
  case (Allocate nw)
  show ?thesis
  proof (cases "freeList p = 0")
    case True
    then show ?thesis using assms Allocate resizePool_Inr [of nw h p]
      by (auto simp: allocateBlock_def split: sum.splits if_splits)
  next
    case False
    then show ?thesis using assms Allocate
      by (auto simp: allocateBlock_def split: sum.splits if_splits)
  qed
next
  case (Deallocate b)
  then show ?thesis using assms by (auto simp: deallocateBlock_def)
next
  case Reset
  then show ?thesis using assms by (auto simp: reset_def)
qed

lemma run_ops_poolStart:
  assumes "run_ops ops (log, h, p) = Inr (log', h', p')"
  shows "poolStart p' = poolStart p"
  using assms
proof (induction ops arbitrary: log h p)
  case Nil
  then show ?case by simp
next
  case (Cons x xs)
  then obtain l1 h1 p1 where s: "exec_op x (log, h, p) = Inr (l1, h1, p1)"
    and r: "run_ops xs (l1, h1, p1) = Inr (log', h', p')"
    by (auto split: sum.splits)
  from Cons.IH [OF r] exec_op_poolStart [OF s] show ?case by simp
qed

text \<open>The constructor writes inside the reservation.\<close>

lemma fst_link_n_untouched:
  assumes "\<And>j. j < k \<Longrightarrow> 8 \<le> x - (c + of_nat j * bsz)"
  shows "fst (link_n k bsz h c) x = h x"
  using assms
proof (induction k arbitrary: h c)
  case 0
  then show ?case by simp
next
  case (Suc k)
  have "fst (link_n k bsz (store_next h c (c + bsz)) (c + bsz)) x
      = store_next h c (c + bsz) x"
  proof (rule Suc.IH)
    fix j assume "j < k"
    then have "8 \<le> x - (c + of_nat (Suc j) * bsz)" by (intro Suc.prems) simp
    then show "8 \<le> x - (c + bsz + of_nat j * bsz)" by (simp add: algebra_simps)
  qed
  also have "\<dots> = h x"
    using Suc.prems [of 0] by (intro store_next_outside) simp
  finally show ?case by simp
qed

lemma constructor_writes_inside:
  fixes raw s bsz n a :: "64 word"
  assumes li: "links_inside raw s bsz n a"
    and x: "unat x < unat raw \<or> unat raw + (unat bsz * unat n + unat a - 1) \<le> unat x"
  shows "store_next (fst (link_n (unat n - 1) bsz h s)) (block_at s bsz (unat n - 1)) 0 x = h x"
proof -
  from li have R: "unat raw \<le> unat s"
    and last: "unat s + (unat n - 1) * unat bsz + 8
        \<le> unat raw + (unat bsz * unat n + unat a - 1)"
    and top: "unat raw + (unat bsz * unat n + unat a - 1) \<le> 2 ^ 64"
    by (simp_all add: links_inside_def)
  have slot: "8 \<le> x - block_at s bsz j" if "j \<le> unat n - 1" for j
  proof (rule byte_outside)
    have "j * unat bsz \<le> (unat n - 1) * unat bsz" using that by (rule mult_le_mono1)
    then have le: "unat s + j * unat bsz + 8 \<le> unat raw + (unat bsz * unat n + unat a - 1)"
      using last by linarith
    then have u: "unat (block_at s bsz j) = unat s + j * unat bsz"
      using top by (intro unat_block_at) linarith
    show "unat (block_at s bsz j) + 8 \<le> 2 ^ 64" unfolding u using le top by linarith
    show "unat x < unat (block_at s bsz j) \<or> unat (block_at s bsz j) + 8 \<le> unat x"
      unfolding u using x R le by linarith
  qed
  have "store_next (fst (link_n (unat n - 1) bsz h s)) (block_at s bsz (unat n - 1)) 0 x
      = fst (link_n (unat n - 1) bsz h s) x"
    using slot [of "unat n - 1"] by (intro store_next_outside) simp
  also have "\<dots> = h x"
  proof (rule fst_link_n_untouched)
    fix j assume "j < unat n - 1"
    then show "8 \<le> x - (s + of_nat j * bsz)"
      using slot [of j] by (simp add: block_at_def)
  qed
  finally show ?thesis .
qed

text \<open>What each operation does to \<^verbatim>\<open>usedBlocks\<close>.\<close>

lemma MemoryPool_ctor_usedBlocks:
  assumes "MemoryPool_ctor this nw h bsz n a = Inr (h', pl)"
  shows "usedBlocks pl = usedBlocks this"
  using MemoryPool_ctor_Inr [OF assms] by blast

lemma allocateBlock_usedBlocks:
  assumes "allocateBlock nw h p = Inr (b, h', p')"
  shows "usedBlocks p' = (if b = 0 then usedBlocks p else usedBlocks p + 1)"
proof (cases "freeList p = 0")
  case True
  then show ?thesis using assms resizePool_Inr [of nw h p]
    by (auto simp: allocateBlock_def split: sum.splits if_splits)
next
  case False
  then show ?thesis using assms by (auto simp: allocateBlock_def)
qed

lemma deallocateBlock_usedBlocks: "usedBlocks (snd (deallocateBlock h p b)) = usedBlocks p"
  by (simp add: deallocateBlock_def)

lemma reset_usedBlocks: "usedBlocks (reset p) = 0"
  by (simp add: reset_def)

lemmas run_simps =
  after_run_def after_def construct_and_run_def MemoryPool_ctor_def initializeMemoryPool_def
  resizePool_def allocateBlock_def deallocateBlock_def reset_def destroyMemoryPool_def
  alignPointer_def Let_def link_loop_link_n block_at_def blocks_def

section \<open>Claims\<close>

text \<open>
  C1 (what the program does where the claim fails). The claim: \<^verbatim>\<open>usedBlocks\<close> is the
  number of blocks allocated and not yet deallocated, so a deallocation takes one
  away. In the program \<^verbatim>\<open>deallocateBlock\<close> never writes \<^verbatim>\<open>usedBlocks\<close>. A pool of two
  16-byte blocks is constructed at address 0x1000 over storage whose \<^verbatim>\<open>usedBlocks\<close>
  happened to be 0; one block is allocated and given back. No block is outstanding,
  and \<^verbatim>\<open>usedBlocks\<close> is 1.
\<close>

theorem usedBlocks_after_deallocate:
  "after_run (construct_and_run
       \<lparr>freeList = 0, poolStart = 0, blockSize = 0, totalBlocks = 0, usedBlocks = 0,
        alignment = 0\<rparr> (\<lambda>sz. Some 0x1000) (\<lambda>x. 0) 16 2 8
       [Allocate (\<lambda>sz. None), Deallocate 0x1000])
     (\<lambda>log h p. log = [Allocated 0x1000, Deallocated 0x1000] \<and> outstanding log = 0
        \<and> usedBlocks p = 1)"
  by (simp add: run_simps outstanding_def)

text \<open>
  C2 (what the program does where the claim fails). The claim: after \<^verbatim>\<open>reset()\<close> the
  free list is a fresh chain of \<^verbatim>\<open>totalBlocks\<close> blocks and the next \<^verbatim>\<open>totalBlocks\<close>
  allocations succeed. In the program \<^verbatim>\<open>reset\<close> writes no link. A pool of two blocks
  is constructed at 0x1000, both blocks are allocated, the first is given back, and
  the pool is reset: \<^verbatim>\<open>usedBlocks\<close> is 0 and the head is the start of the region, but
  the free list holds the one block 0x1000 while \<^verbatim>\<open>totalBlocks\<close> is 2. Of the next two
  allocations the second has to grow the pool, and raises when the reservation
  fails.
\<close>

theorem reset_after_deallocate:
  "after_run (construct_and_run
       \<lparr>freeList = 0, poolStart = 0, blockSize = 0, totalBlocks = 0, usedBlocks = 0,
        alignment = 0\<rparr> (\<lambda>sz. Some 0x1000) (\<lambda>x. 0) 16 2 8
       [Allocate (\<lambda>sz. None), Allocate (\<lambda>sz. None), Deallocate 0x1000, Reset])
     (\<lambda>log h p. log = [Allocated 0x1000, Allocated 0x1010, Deallocated 0x1000, WasReset]
        \<and> totalBlocks p = 2 \<and> usedBlocks p = 0 \<and> freeList p = 0x1000
        \<and> free_chain h (freeList p) [0x1000])
   \<and> construct_and_run
       \<lparr>freeList = 0, poolStart = 0, blockSize = 0, totalBlocks = 0, usedBlocks = 0,
        alignment = 0\<rparr> (\<lambda>sz. Some 0x1000) (\<lambda>x. 0) 16 2 8
       [Allocate (\<lambda>sz. None), Allocate (\<lambda>sz. None), Deallocate 0x1000, Reset,
        Allocate (\<lambda>sz. None), Allocate (\<lambda>sz. None)] = Inl BadAlloc"
  by (simp add: run_simps load_store_other)

text \<open>
  C3 (amended). \<^verbatim>\<open>resizePool\<close> computes \<^verbatim>\<open>newSize = totalBlocks + totalBlocks / 2\<close> with no
  minimum. Whenever it returns, with \<^verbatim>\<open>newSize\<close> at least 1, blocks of at least eight
  bytes, a reservation that fits the address space, and any free list \<open>old\<close> (empty or
  not) whose links lie outside the reservation: the new head is the aligned start of
  the reservation, the free list is the \<^verbatim>\<open>newSize\<close> new blocks in address order followed
  by all of \<open>old\<close>, the last new block links to the old head, \<^verbatim>\<open>totalBlocks\<close> is
  \<^verbatim>\<open>newSize\<close>, and no other field changes.
\<close>

theorem resizePool_prepends_new_chain:
  assumes ok: "resizePool nw h this = Inr (h', this')"
    and new: "newSize = totalBlocks this + totalBlocks this div 2"
    and env: "nw (blockSize this * newSize + alignment this - 1) = Some raw"
      "region_fits raw (blockSize this) newSize (alignment this)"
    and sz: "8 \<le> blockSize this" "0 < newSize"
    and old: "free_chain h (freeList this) old"
      "\<forall>b\<in>set old. slot_outside raw
          (unat (blockSize this) * unat newSize + unat (alignment this) - 1) b"
  shows "totalBlocks this' = newSize
    \<and> alignPointer raw (alignment this) = Inr (freeList this')
    \<and> free_chain h' (freeList this')
        (blocks (freeList this') (blockSize this) (unat newSize) @ old)
    \<and> length (blocks (freeList this') (blockSize this) (unat newSize)) = unat newSize
    \<and> load_next h' (block_at (freeList this') (blockSize this) (unat newSize - 1))
        = freeList this
    \<and> poolStart this' = poolStart this \<and> blockSize this' = blockSize this
    \<and> usedBlocks this' = usedBlocks this \<and> alignment this' = alignment this"
proof -
  have raw0: "raw \<noteq> 0" using env(2) by (simp add: region_fits_def)
  from ok env(1) raw0 obtain s where al: "alignPointer raw (alignment this) = Inr s"
    by (auto simp: resizePool_def Let_def new split: sum.splits)
  have res: "h' = store_next (fst (link_n (unat newSize - 1) (blockSize this) h s))
             (block_at s (blockSize this) (unat newSize - 1)) (freeList this)"
    "this' = this\<lparr>freeList := s, totalBlocks := newSize\<rparr>"
    using resizePool_succeeds [where nw = nw and this = this and h = h,
        OF env(1) [unfolded new] raw0 al] ok by (simp_all add: new)
  have B: "8 \<le> unat (blockSize this)" using sz(1) by (simp add: word_le_nat_alt)
  have m: "0 < unat newSize" using sz(2) by (simp add: word_less_nat_alt)
  note r = aligned_in_region [OF al env(2) B m]
  have "free_chain h' (block_at s (blockSize this) 0)
      (blocks s (blockSize this) (unat newSize) @ old)"
    unfolding res(1) using B m r(3) r(4) old(1)
  proof (rule chain_after_linking)
    fix b assume "b \<in> set old"
    then have "slot_outside raw
        (unat (blockSize this) * unat newSize + unat (alignment this) - 1) b"
      using old(2) by blast
    then show "unat b + 8 \<le> unat s \<or>
        (unat s + unat newSize * unat (blockSize this) \<le> unat b \<and> unat b + 8 \<le> 2 ^ 64)"
      using r(1,2) unfolding slot_outside_def by linarith
  qed
  moreover have "block_at s (blockSize this) 0 = s" by (simp add: block_at_def)
  ultimately show ?thesis
    using linked(3) [OF B m r(3), where h = h and v = "freeList this"] al
    by (simp add: res blocks_def)
qed

text \<open>
  A pool of capacity 2 whose free list holds the block 0x1010 grows by a region at
  0x2000: three new blocks, then 0x1010.
\<close>

theorem resizePool_prepends_new_chain_witness:
  "region_fits 0x2000 16 3 8 \<and> slot_outside 0x2000 55 0x1010
   \<and> after (resizePool (\<lambda>sz. Some 0x2000) (\<lambda>x. 0)
       \<lparr>freeList = 0x1010, poolStart = 0x1000, blockSize = 16, totalBlocks = 2, usedBlocks = 1,
        alignment = 8\<rparr>)
     (\<lambda>h p. free_chain (\<lambda>x. 0) 0x1010 [0x1010] \<and> totalBlocks p = 3 \<and> freeList p = 0x2000
        \<and> free_chain h (freeList p) [0x2000, 0x2010, 0x2020, 0x1010]
        \<and> poolStart p = 0x1000)"
proof -
  let ?p = "\<lparr>freeList = 0x1010, poolStart = 0x1000, blockSize = 16, totalBlocks = 2,
        usedBlocks = 1, alignment = 8\<rparr>"
  let ?nw = "\<lambda>sz :: size_t. Some (0x2000 :: addr)"
  let ?h = "\<lambda>x :: addr. 0 :: 8 word"
  have al: "alignPointer 0x2000 (alignment ?p) = Inr 0x2000" by (simp add: alignPointer_def)
  have nw: "?nw (blockSize ?p * (totalBlocks ?p + totalBlocks ?p div 2) + alignment ?p - 1)
      = Some 0x2000" by simp
  note ok = resizePool_succeeds [where h = ?h, OF nw _ al]
  have old: "free_chain ?h (freeList ?p) [0x1010]" by simp
  have out: "\<forall>b\<in>set [0x1010 :: addr]. slot_outside 0x2000
      (unat (blockSize ?p) * unat (3 :: size_t) + unat (alignment ?p) - 1) b"
    by (simp add: slot_outside_def)
  have "resizePool ?nw ?h ?p
      = Inr (fst (projr (resizePool ?nw ?h ?p)), snd (projr (resizePool ?nw ?h ?p)))"
    using ok by simp
  from resizePool_prepends_new_chain [OF this, of 3 "0x2000" "[0x1010]"] old out
  show ?thesis
    using ok
    by (simp add: after_def region_fits_def slot_outside_def blocks_def block_at_def upt_rec)
qed

text \<open>
  The claim as stated asks for a new capacity of at least \<^verbatim>\<open>totalBlocks + 1\<close> when
  \<^verbatim>\<open>totalBlocks\<close> is 0 or 1. The program has no such minimum: capacity 1 stays 1, and
  capacity 0 stays 0 although the free list then holds one block. The claim also
  covers every block size: with blocks of 4 bytes each store overwrites the upper
  half of the link before it, and the first new block does not link to the second.
\<close>

theorem resizePool_no_minimum_counterexample:
  "after (resizePool (\<lambda>sz. Some 0x2000) (\<lambda>x. 0)
       \<lparr>freeList = 0, poolStart = 0x1000, blockSize = 16, totalBlocks = 1, usedBlocks = 1,
        alignment = 8\<rparr>)
     (\<lambda>h p. totalBlocks p = 1 \<and> \<not> (1 + 1 \<le> totalBlocks p))
   \<and> after (resizePool (\<lambda>sz. Some 0x2000) (\<lambda>x. 0)
       \<lparr>freeList = 0, poolStart = 0x1000, blockSize = 16, totalBlocks = 0, usedBlocks = 0,
        alignment = 8\<rparr>)
     (\<lambda>h p. totalBlocks p = 0 \<and> \<not> (0 + 1 \<le> totalBlocks p)
        \<and> free_chain h (freeList p) [0x2000])
   \<and> after (resizePool (\<lambda>sz. Some 0x100000000) (\<lambda>x. 0)
       \<lparr>freeList = 0, poolStart = 0x1000, blockSize = 4, totalBlocks = 2, usedBlocks = 2,
        alignment = 8\<rparr>)
     (\<lambda>h p. totalBlocks p = 3 \<and> freeList p = 0x100000000
        \<and> block_at (freeList p) 4 1 = 0x100000004
        \<and> load_next h (block_at (freeList p) 4 0) = 0x800000004)"
  by (simp add: after_def resizePool_def alignPointer_def Let_def word_le_nat_alt
      link_loop_link_n link_n_numeral block_at_def load_next_bytes store_next_def)

text \<open>
  C4 (amended). \<^verbatim>\<open>allocateBlock\<close> raises exactly when the free list is empty and the
  growth fails, and then the caller gets the exception, not null:
  \<^verbatim>\<open>std::bad_alloc\<close> when \<^verbatim>\<open>operator new\<close> throws, \<^verbatim>\<open>std::runtime_error\<close> when it
  returns null, \<^verbatim>\<open>std::invalid_argument\<close> when the pool's alignment is not a power of
  two. With a non-empty free list it never raises. It returns null only after a
  growth that succeeded and left the head null (the aligned start of the new region
  is address 0).
\<close>

theorem allocateBlock_raises_iff:
  assumes "sz = blockSize this * (totalBlocks this + totalBlocks this div 2) + alignment this - 1"
  shows "((allocateBlock nw h this = Inl e) =
      (freeList this = 0 \<and>
        (nw sz = None \<and> e = BadAlloc
         \<or> nw sz = Some 0 \<and> e = RuntimeError
         \<or> (\<exists>raw. nw sz = Some raw \<and> raw \<noteq> 0) \<and> \<not> is_pow2 (alignment this)
             \<and> e = InvalidArgument)))
    \<and> (allocateBlock nw h this = Inr (0, h', this') \<longrightarrow>
         freeList this = 0
         \<and> (\<exists>raw. nw sz = Some raw \<and> raw \<noteq> 0 \<and> alignPointer raw (alignment this) = Inr 0))"
  using pow2_test [of "alignment this"]
  by (auto simp: allocateBlock_def resizePool_def alignPointer_def Let_def assms
      split: option.splits sum.splits if_splits)

theorem allocateBlock_raises_iff_witness:
  "allocateBlock (\<lambda>sz. None) (\<lambda>x. 0)
      \<lparr>freeList = 0, poolStart = 0x1000, blockSize = 16, totalBlocks = 2, usedBlocks = 2,
       alignment = 8\<rparr> = Inl BadAlloc
   \<and> allocateBlock (\<lambda>sz. Some 0) (\<lambda>x. 0)
      \<lparr>freeList = 0, poolStart = 0x1000, blockSize = 16, totalBlocks = 2, usedBlocks = 2,
       alignment = 8\<rparr> = Inl RuntimeError
   \<and> allocateBlock (\<lambda>sz. None) (\<lambda>x. 0)
      \<lparr>freeList = 0x1010, poolStart = 0x1000, blockSize = 16, totalBlocks = 2, usedBlocks = 1,
       alignment = 8\<rparr>
     = Inr (0x1010, \<lambda>x. 0,
      \<lparr>freeList = 0, poolStart = 0x1000, blockSize = 16, totalBlocks = 2, usedBlocks = 2,
       alignment = 8\<rparr>)"
  using allocateBlock_raises_iff [of 55 "\<lparr>freeList = 0, poolStart = 0x1000, blockSize = 16,
      totalBlocks = 2, usedBlocks = 2, alignment = 8\<rparr>" "\<lambda>sz. None" "\<lambda>x. 0" BadAlloc]
    allocateBlock_raises_iff [of 55 "\<lparr>freeList = 0, poolStart = 0x1000, blockSize = 16,
      totalBlocks = 2, usedBlocks = 2, alignment = 8\<rparr>" "\<lambda>sz. Some 0" "\<lambda>x. 0" RuntimeError]
  by (simp add: allocateBlock_def)

text \<open>
  The claim as stated: on an empty free list, a failed reservation makes
  \<^verbatim>\<open>allocateBlock\<close> return null. The exhausted pool below gets \<^verbatim>\<open>std::bad_alloc\<close>.
\<close>

theorem allocateBlock_growth_failure_counterexample:
  "allocateBlock (\<lambda>sz. None) (\<lambda>x. 0)
      \<lparr>freeList = 0, poolStart = 0x1000, blockSize = 16, totalBlocks = 2, usedBlocks = 2,
       alignment = 8\<rparr> = Inl BadAlloc"
  by (simp add: allocateBlock_def resizePool_def)

text \<open>
  C5 (amended). For every address \<open>p\<close> and every non-zero power-of-two alignment \<open>a\<close>,
  \<^verbatim>\<open>alignPointer\<close> returns a multiple of \<open>a\<close>; whenever some multiple of \<open>a\<close> at or
  above \<open>p\<close> exists in the address space, the result is the smallest of them. So
  the start of every backing region, set by the constructor (\<^verbatim>\<open>poolStart\<close>) or by
  \<^verbatim>\<open>resizePool\<close> (the new head), is a multiple of the pool's alignment.
\<close>

theorem alignPointer_least_aligned_address:
  assumes "is_pow2 a"
  shows "(\<exists>r. alignPointer p a = Inr r \<and> r mod a = 0
            \<and> (\<forall>q. q mod a = 0 \<and> p \<le> q \<longrightarrow> p \<le> r \<and> r \<le> q))
    \<and> (MemoryPool_ctor this nw h bsz n a = Inr (h', pl) \<longrightarrow> poolStart pl mod a = 0)
    \<and> (alignment pl0 = a \<and> resizePool nw0 h0 pl0 = Inr (h1, pl1) \<longrightarrow> freeList pl1 mod a = 0)"
proof (intro conjI impI)
  show "\<exists>r. alignPointer p a = Inr r \<and> r mod a = 0
            \<and> (\<forall>q. q mod a = 0 \<and> p \<le> q \<longrightarrow> p \<le> r \<and> r \<le> q)"
  proof (intro exI conjI allI impI)
    show "alignPointer p a = Inr (p + (a - p mod a) mod a)" by (rule alignPointer_pow2 [OF assms])
    show "(p + (a - p mod a) mod a) mod a = 0" by (rule aligned_multiple [OF assms])
    fix q assume "q mod a = 0 \<and> p \<le> q"
    then have q: "q mod a = 0" "p \<le> q" by blast+
    show "p \<le> p + (a - p mod a) mod a" by (rule aligned_least(1) [OF assms q])
    show "p + (a - p mod a) mod a \<le> q" by (rule aligned_least(2) [OF assms q])
  qed
next
  assume "MemoryPool_ctor this nw h bsz n a = Inr (h', pl)"
  then obtain raw s where "alignPointer raw a = Inr s" "poolStart pl = s"
    using MemoryPool_ctor_Inr by blast
  then show "poolStart pl mod a = 0"
    using alignPointer_Inr_pow2 (2) [of raw a s] aligned_multiple [OF assms, of raw] by simp
next
  assume "alignment pl0 = a \<and> resizePool nw0 h0 pl0 = Inr (h1, pl1)"
  then obtain raw s where "alignPointer raw a = Inr s" "freeList pl1 = s"
    using resizePool_Inr [of nw0 h0 pl0 h1 pl1] by auto
  then show "freeList pl1 mod a = 0"
    using alignPointer_Inr_pow2 (2) [of raw a s] aligned_multiple [OF assms, of raw] by simp
qed

theorem alignPointer_least_aligned_address_witness:
  "is_pow2 8 \<and> alignPointer 13 8 = Inr 16 \<and> (16 :: addr) mod 8 = 0
   \<and> (24 :: addr) mod 8 = 0 \<and> (13 :: addr) \<le> 24 \<and> (13 :: addr) \<le> 16 \<and> (16 :: addr) \<le> 24
   \<and> after (MemoryPool_ctor
        \<lparr>freeList = 0, poolStart = 0, blockSize = 0, totalBlocks = 0, usedBlocks = 0,
         alignment = 0\<rparr> (\<lambda>sz. Some 0x1003) (\<lambda>x. 0) 16 2 8)
        (\<lambda>h' pl. poolStart pl = 0x1008 \<and> poolStart pl mod 8 = 0)
   \<and> after (resizePool (\<lambda>sz. Some 0x2003) (\<lambda>x. 0)
        \<lparr>freeList = 0, poolStart = 0x1008, blockSize = 16, totalBlocks = 2, usedBlocks = 2,
         alignment = 8\<rparr>)
        (\<lambda>h' pl. freeList pl = 0x2008 \<and> freeList pl mod 8 = 0)"
  using alignPointer_least_aligned_address [OF is_pow2_8, of 13] is_pow2_8
  by (simp add: after_def MemoryPool_ctor_def initializeMemoryPool_def resizePool_def
      alignPointer_def Let_def)

text \<open>
  The claim as stated holds for every address. Above the last multiple of the
  alignment the sum wraps: the address \<open>2^64 - 1\<close> is rounded to 0, which is not at or
  above it.
\<close>

theorem alignPointer_wraps_counterexample:
  "is_pow2 8 \<and> alignPointer 0xFFFFFFFFFFFFFFFF 8 = Inr 0
   \<and> \<not> (0xFFFFFFFFFFFFFFFF \<le> (0 :: addr))"
  using is_pow2_8 by (simp add: alignPointer_def)

text \<open>
  C6. For every alignment argument, \<^verbatim>\<open>alignPointer\<close> throws
  \<^verbatim>\<open>std::invalid_argument\<close> if and only if the alignment is zero or not a power of two;
  it returns an address exactly when the alignment is a power of two, and it throws
  nothing else.
\<close>

theorem alignPointer_fails_iff_not_pow2:
  "((alignPointer p a = Inl InvalidArgument) = (a = 0 \<or> \<not> is_pow2 a))
   \<and> ((\<exists>r. alignPointer p a = Inr r) = is_pow2 a)
   \<and> (\<forall>e. alignPointer p a = Inl e \<longrightarrow> e = InvalidArgument)"
  using pow2_test [of a] by (auto simp: alignPointer_def Let_def)

theorem alignPointer_fails_iff_not_pow2_witness:
  "alignPointer 13 12 = Inl InvalidArgument \<and> alignPointer 13 0 = Inl InvalidArgument
   \<and> alignPointer 13 8 = Inr 16"
  using alignPointer_fails_iff_not_pow2 [of 13 12] alignPointer_fails_iff_not_pow2 [of 13 0]
    alignPointer_fails_iff_not_pow2 [of 13 8] not_is_pow2_12 is_pow2_8
  by (auto simp: alignPointer_def)

text \<open>
  C7 (amended). The constructor does not look at \<^verbatim>\<open>blockSize\<close>. When construction
  fails, the error is \<^verbatim>\<open>std::bad_alloc\<close> of a failed reservation or
  \<^verbatim>\<open>std::invalid_argument\<close> of an alignment that is not a power of two, whatever the
  block size. When it returns, the pool holds the block size it was given. And it
  does return, for every block size, also one below the width of a pointer, when
  the reservation succeeds, the alignment is a power of two and the links lie
  inside the reservation; it has then written nothing outside the reservation.
\<close>

theorem constructor_accepts_any_blockSize:
  "(MemoryPool_ctor this nw h bsz n a = Inl e \<longrightarrow>
        (e = BadAlloc \<and> nw (bsz * n + a - 1) = None)
        \<or> (e = InvalidArgument \<and> nw (bsz * n + a - 1) \<noteq> None \<and> \<not> is_pow2 a))
   \<and> (MemoryPool_ctor this nw h bsz n a = Inr (h1, pl1) \<longrightarrow>
        blockSize pl1 = bsz \<and> nw (bsz * n + a - 1) \<noteq> None \<and> is_pow2 a)
   \<and> (nw (bsz * n + a - 1) = Some raw \<and> alignPointer raw a = Inr s
        \<and> links_inside raw s bsz n a \<longrightarrow>
        (\<exists>h' pl. MemoryPool_ctor this nw h bsz n a = Inr (h', pl) \<and> blockSize pl = bsz
           \<and> (\<forall>x. unat x < unat raw \<or> unat raw + (unat bsz * unat n + unat a - 1) \<le> unat x
                 \<longrightarrow> h' x = h x)))"
proof (intro conjI impI)
  assume "MemoryPool_ctor this nw h bsz n a = Inl e"
  then show "(e = BadAlloc \<and> nw (bsz * n + a - 1) = None)
        \<or> (e = InvalidArgument \<and> nw (bsz * n + a - 1) \<noteq> None \<and> \<not> is_pow2 a)"
    using pow2_test [of a]
    by (auto simp: MemoryPool_ctor_def initializeMemoryPool_def Let_def alignPointer_def
        split: option.splits sum.splits if_splits)
next
  assume ok: "MemoryPool_ctor this nw h bsz n a = Inr (h1, pl1)"
  from MemoryPool_ctor_Inr [OF ok] obtain raw' s' where
    "nw (bsz * n + a - 1) = Some raw'" "alignPointer raw' a = Inr s'" "blockSize pl1 = bsz"
    by blast
  then show "blockSize pl1 = bsz" "nw (bsz * n + a - 1) \<noteq> None" "is_pow2 a"
    using alignPointer_Inr_pow2(1) by auto
next
  assume A: "nw (bsz * n + a - 1) = Some raw \<and> alignPointer raw a = Inr s
        \<and> links_inside raw s bsz n a"
  then have nw: "nw (bsz * n + a - 1) = Some raw" and al: "alignPointer raw a = Inr s"
    and li: "links_inside raw s bsz n a" by blast+
  show "\<exists>h' pl. MemoryPool_ctor this nw h bsz n a = Inr (h', pl) \<and> blockSize pl = bsz
           \<and> (\<forall>x. unat x < unat raw \<or> unat raw + (unat bsz * unat n + unat a - 1) \<le> unat x
                 \<longrightarrow> h' x = h x)"
    using MemoryPool_ctor_succeeds [where nw = nw and bsz = bsz and n = n and this = this
        and h = h, OF nw al] constructor_writes_inside [OF li]
    by simp
qed

text \<open>
  Two blocks of 4 bytes with alignment 8 at 0x1000: fifteen bytes are reserved and
  the links take the first twelve.
\<close>

theorem constructor_accepts_any_blockSize_witness:
  "alignPointer 0x1000 8 = Inr 0x1000 \<and> links_inside 0x1000 0x1000 4 2 8
   \<and> after (MemoryPool_ctor
        \<lparr>freeList = 0, poolStart = 0, blockSize = 0, totalBlocks = 0, usedBlocks = 0,
         alignment = 0\<rparr> (\<lambda>sz. Some 0x1000) (\<lambda>x. 0) 4 2 8)
        (\<lambda>h pl. blockSize pl = 4 \<and> h 0xFFF = 0 \<and> h 0x100F = 0)
   \<and> MemoryPool_ctor
        \<lparr>freeList = 0, poolStart = 0, blockSize = 0, totalBlocks = 0, usedBlocks = 0,
         alignment = 0\<rparr> (\<lambda>sz. None) (\<lambda>x. 0) 4 2 8 = Inl BadAlloc
   \<and> MemoryPool_ctor
        \<lparr>freeList = 0, poolStart = 0, blockSize = 0, totalBlocks = 0, usedBlocks = 0,
         alignment = 0\<rparr> (\<lambda>sz. Some 0x1000) (\<lambda>x. 0) 16 2 12 = Inl InvalidArgument"
proof -
  let ?p0 = "\<lparr>freeList = 0, poolStart = 0, blockSize = 0, totalBlocks = 0, usedBlocks = 0,
         alignment = 0\<rparr>"
  have li: "links_inside 0x1000 0x1000 4 2 8" by (simp add: links_inside_def)
  have nw: "(\<lambda>sz :: size_t. Some (0x1000 :: addr)) (4 * 2 + 8 - 1) = Some 0x1000" by simp
  from constructor_accepts_any_blockSize [of ?p0 "\<lambda>sz. Some 0x1000" "\<lambda>x. 0" 4 2 8 _ _ _
      "0x1000" "0x1000"] nw alignPointer_0x1000 li
  obtain h' pl where ok: "MemoryPool_ctor ?p0 (\<lambda>sz. Some 0x1000) (\<lambda>x. 0) 4 2 8 = Inr (h', pl)"
    and bs: "blockSize pl = 4"
    and fr: "\<forall>x. unat x < unat (0x1000 :: addr)
                \<or> unat (0x1000 :: addr) + (unat (4 :: size_t) * unat (2 :: size_t)
                     + unat (8 :: size_t) - 1) \<le> unat x \<longrightarrow> h' x = (0 :: 8 word)"
    by blast
  from fr have "h' 0xFFF = 0" "h' 0x100F = 0" by simp_all
  then show ?thesis
    using ok bs li alignPointer_0x1000 not_is_pow2_12 pow2_test [of 12]
    by (simp add: after_def MemoryPool_ctor_def initializeMemoryPool_def alignPointer_def Let_def)
qed

text \<open>
  The claim as stated: construction fails when \<^verbatim>\<open>blockSize\<close> is below the pointer
  width. With block sizes 4 and 0, and links that lie inside the reservation, it
  succeeds.
\<close>

theorem constructor_small_blockSize_counterexample:
  "links_inside 0x1000 0x1000 4 2 8
   \<and> after (MemoryPool_ctor
        \<lparr>freeList = 0, poolStart = 0, blockSize = 0, totalBlocks = 0, usedBlocks = 0,
         alignment = 0\<rparr> (\<lambda>sz. Some 0x1000) (\<lambda>x. 0) 4 2 8)
      (\<lambda>h pl. blockSize pl = 4 \<and> blockSize pl < 8)
   \<and> links_inside 0x1000 0x1000 0 2 16
   \<and> after (MemoryPool_ctor
        \<lparr>freeList = 0, poolStart = 0, blockSize = 0, totalBlocks = 0, usedBlocks = 0,
         alignment = 0\<rparr> (\<lambda>sz. Some 0x1000) (\<lambda>x. 0) 0 2 16)
      (\<lambda>h pl. poolStart pl = 0x1000 \<and> blockSize pl = 0 \<and> blockSize pl < 8)"
  by (simp add: links_inside_def after_def MemoryPool_ctor_def initializeMemoryPool_def
      alignPointer_def Let_def)

text \<open>
  C8 (amended). For every successful construction with blocks of at least eight
  bytes, a capacity \<open>n\<close> of at least 1 and a reservation that fits the address space:
  the free-list head is block 0 (the aligned start of the region), block \<open>i\<close> links to
  block \<open>i + 1\<close> for every \<open>i\<close> with \<open>i + 1 < n\<close>, the last block's link is null, and
  the free list is exactly the \<open>n\<close> blocks in address order, all different. Nothing
  is said of \<^verbatim>\<open>usedBlocks\<close>, which the constructor does not assign.
\<close>

theorem constructor_links_blocks:
  assumes ok: "MemoryPool_ctor this nw h bsz n a = Inr (h', pl)"
    and env: "nw (bsz * n + a - 1) = Some raw" "region_fits raw bsz n a"
    and sz: "8 \<le> bsz" "0 < n"
  shows "freeList pl = block_at (poolStart pl) bsz 0
    \<and> (\<forall>i. Suc i < unat n \<longrightarrow>
          load_next h' (block_at (poolStart pl) bsz i) = block_at (poolStart pl) bsz (Suc i))
    \<and> load_next h' (block_at (poolStart pl) bsz (unat n - 1)) = 0
    \<and> free_chain h' (freeList pl) (blocks (poolStart pl) bsz (unat n))
    \<and> length (blocks (poolStart pl) bsz (unat n)) = unat n
    \<and> distinct (blocks (poolStart pl) bsz (unat n))"
proof -
  from MemoryPool_ctor_Inr [OF ok] env(1) obtain s where
    al: "alignPointer raw a = Inr s" and fl: "freeList pl = s" and ps: "poolStart pl = s"
    and h': "h' = store_next (fst (link_n (unat n - 1) bsz h s)) (block_at s bsz (unat n - 1)) 0"
    by auto
  have B: "8 \<le> unat bsz" using sz(1) by (simp add: word_le_nat_alt)
  have m: "0 < unat n" using sz(2) by (simp add: word_less_nat_alt)
  note r = aligned_in_region [OF al env(2) B m]
  have "free_chain h' (block_at s bsz 0) (blocks s bsz (unat n) @ [])"
    unfolding h' using B m r(3) r(4) by (intro chain_after_linking) simp_all
  moreover have "block_at s bsz 0 = s" by (simp add: block_at_def)
  ultimately show ?thesis
    using linked(2) [OF B m r(3), where h = h and v = 0]
      linked(3) [OF B m r(3), where h = h and v = 0] distinct_blocks [OF B r(3) r(4)]
    by (simp add: fl ps h' blocks_def)
qed

theorem constructor_links_blocks_witness:
  "region_fits 0x1000 16 2 8
   \<and> after (MemoryPool_ctor
            \<lparr>freeList = 0, poolStart = 0, blockSize = 0, totalBlocks = 0, usedBlocks = 0,
             alignment = 0\<rparr> (\<lambda>sz. Some 0x1000) (\<lambda>x. 0) 16 2 8)
     (\<lambda>h' pl. freeList pl = 0x1000 \<and> poolStart pl = 0x1000
        \<and> load_next h' 0x1000 = 0x1010 \<and> load_next h' 0x1010 = 0
        \<and> free_chain h' 0x1000 [0x1000, 0x1010])"
proof -
  let ?p0 = "\<lparr>freeList = 0, poolStart = 0, blockSize = 0, totalBlocks = 0, usedBlocks = 0,
             alignment = 0\<rparr>"
  let ?nw = "\<lambda>sz :: size_t. Some (0x1000 :: addr)"
  let ?h = "\<lambda>x :: addr. 0 :: 8 word"
  have nw: "?nw (16 * 2 + 8 - 1) = Some 0x1000" by simp
  note ok = MemoryPool_ctor_succeeds [where this = ?p0 and h = ?h, OF nw alignPointer_0x1000]
  have fits: "region_fits 0x1000 16 2 8" by (simp add: region_fits_def)
  have sz: "(8 :: size_t) \<le> 16" "(0 :: size_t) < 2" by simp_all
  from constructor_links_blocks [OF ok nw fits sz]
  show ?thesis
    by (simp add: after_def ok fits blocks_def block_at_def upt_rec)
qed

text \<open>
  The claim as stated fails in three ways. \<^verbatim>\<open>usedBlocks\<close> keeps what the storage
  held (here 7). With capacity 0 the free list still holds one block. With a block
  size of 4 the store that ends the chain overwrites the upper half of block 0's
  link, which then reads 4 and not the address of block 1.
\<close>

theorem constructor_chain_counterexample:
  "after (MemoryPool_ctor
            \<lparr>freeList = 0, poolStart = 0, blockSize = 0, totalBlocks = 0, usedBlocks = 7,
             alignment = 0\<rparr> (\<lambda>sz. Some 0x1000) (\<lambda>x. 0) 16 2 8)
     (\<lambda>h' pl. usedBlocks pl = 7)
   \<and> after (MemoryPool_ctor
            \<lparr>freeList = 0, poolStart = 0, blockSize = 0, totalBlocks = 0, usedBlocks = 0,
             alignment = 0\<rparr> (\<lambda>sz. Some 0x1000) (\<lambda>x. 0) 16 0 8)
     (\<lambda>h' pl. totalBlocks pl = 0 \<and> freeList pl = 0x1000 \<and> free_chain h' (freeList pl) [0x1000])
   \<and> after (MemoryPool_ctor
            \<lparr>freeList = 0, poolStart = 0, blockSize = 0, totalBlocks = 0, usedBlocks = 0,
             alignment = 0\<rparr> (\<lambda>sz. Some 0x100000000) (\<lambda>x. 0) 4 2 8)
     (\<lambda>h' pl. freeList pl = 0x100000000 \<and> load_next h' 0x100000000 = 4
         \<and> block_at (poolStart pl) 4 1 = 0x100000004)"
  by (simp add: after_def MemoryPool_ctor_def initializeMemoryPool_def alignPointer_def Let_def
      link_loop_link_n block_at_def load_next_bytes store_next_def)




text \<open>
  C10. \<^verbatim>\<open>resizePool\<close> leaves \<^verbatim>\<open>poolStart\<close> unchanged, and so does every run of
  allocations (growing or not), deallocations and resets. After any such run,
  \<^verbatim>\<open>reset()\<close> sets the free-list head to the \<^verbatim>\<open>poolStart\<close> the run began with, the
  start of the first region, and \<^verbatim>\<open>destroyMemoryPool\<close> hands exactly that one pointer
  to \<^verbatim>\<open>operator delete\<close>.
\<close>

theorem grow_leaves_poolStart:
  "(resizePool nw h p = Inr (h1, p1) \<longrightarrow> poolStart p1 = poolStart p)
   \<and> (run_ops ops (log, h, p) = Inr (log', h', p') \<longrightarrow>
        poolStart p' = poolStart p \<and> freeList (reset p') = poolStart p
        \<and> fst (destroyMemoryPool p') = [poolStart p])"
  using resizePool_Inr [of nw h p h1 p1] run_ops_poolStart [of ops log h p log' h' p']
  by (auto simp: reset_def destroyMemoryPool_def)

text \<open>
  A pool of two blocks at 0x1000 grows by a region at 0x2000 on the third
  allocation. \<^verbatim>\<open>poolStart\<close> is still 0x1000; a reset would put the head back on the
  two blocks of the first region, although \<^verbatim>\<open>totalBlocks\<close> is 3; teardown releases
  0x1000 only.
\<close>

theorem grow_leaves_poolStart_witness:
  "after_run (construct_and_run
       \<lparr>freeList = 0, poolStart = 0, blockSize = 0, totalBlocks = 0, usedBlocks = 0,
        alignment = 0\<rparr> (\<lambda>sz. Some 0x1000) (\<lambda>x. 0) 16 2 8
       [Allocate (\<lambda>sz. None), Allocate (\<lambda>sz. None), Allocate (\<lambda>sz. Some 0x2000)])
     (\<lambda>log h p. log = [Allocated 0x1000, Allocated 0x1010, Allocated 0x2000]
        \<and> totalBlocks p = 3 \<and> freeList p = 0x2010 \<and> poolStart p = 0x1000
        \<and> freeList (reset p) = 0x1000 \<and> free_chain h (freeList (reset p)) [0x1000, 0x1010]
        \<and> fst (destroyMemoryPool p) = [0x1000])"
proof -
  let ?p0 = "\<lparr>freeList = 0, poolStart = 0, blockSize = 0, totalBlocks = 0, usedBlocks = 0,
        alignment = 0\<rparr>"
  let ?ops = "[Allocate (\<lambda>sz. None), Allocate (\<lambda>sz. None), Allocate (\<lambda>sz. Some 0x2000)]"
  let ?r = "construct_and_run ?p0 (\<lambda>sz. Some 0x1000) (\<lambda>x. 0) 16 2 8 ?ops"
  have "after_run ?r (\<lambda>log h p. log = [Allocated 0x1000, Allocated 0x1010, Allocated 0x2000]
        \<and> totalBlocks p = 3 \<and> freeList p = 0x2010
        \<and> free_chain h 0x1000 [0x1000, 0x1010])"
    by (simp add: run_simps load_store_other link_n_numeral)
  then obtain log h p where r: "?r = Inr (log, h, p)"
    and obs: "log = [Allocated 0x1000, Allocated 0x1010, Allocated 0x2000]" "totalBlocks p = 3"
      "freeList p = 0x2010" "free_chain h 0x1000 [0x1000, 0x1010]"
    by (auto simp: after_run_def split: sum.splits)
  from r obtain h0 p0 where ctor: "MemoryPool_ctor ?p0 (\<lambda>sz. Some 0x1000) (\<lambda>x. 0) 16 2 8 = Inr (h0, p0)"
    and run: "run_ops ?ops ([], h0, p0) = Inr (log, h, p)"
    by (auto simp: construct_and_run_def split: sum.splits)
  from ctor have p0: "poolStart p0 = 0x1000"
    by (auto simp: MemoryPool_ctor_def initializeMemoryPool_def alignPointer_def Let_def)
  from grow_leaves_poolStart [of _ h0 p0 _ _ ?ops "[]" log h p] run
  have "poolStart p = poolStart p0 \<and> freeList (reset p) = poolStart p0
        \<and> fst (destroyMemoryPool p) = [poolStart p0]" by simp
  then show ?thesis using obs by (simp add: after_run_def r p0)
qed

end
